theory Spec2Isabelle
  imports Main "HOL-Library.Word"
begin

section \<open>Data model of \<open>stratum/cache_sim.hpp\<close>\<close>

text \<open>
  Addresses are \<open>uint64_t\<close>; the template parameters \<open>Sets\<close>, \<open>BlockSize\<close> and
  \<open>HitLatency\<close>, the latency of the main memory and the counters are \<open>size_t\<close>, taken
  as 64 bits wide: all of them are \<open>64 word\<close>, so that \<open>+\<close> and \<open>*\<close> wrap around as
  unsigned C++ arithmetic does. \<open>Ways\<close> and way indices only count and index the lines
  of one set and are natural numbers.
\<close>

type_synonym u64 = "64 word"

record AccessResult =
  hit_level :: string
  total_cycles :: u64

datatype AccessType = kLoad | kStore

text \<open>
  What C++ leaves undefined is a value of the model: a division by a zero divisor, a
  vector read past its end, and (only in the model, where the chain's type and its
  object are two values) an object that is not of the layer's type.
\<close>

datatype fault = DivisionByZero | IndexOutOfRange | TypeMismatch

record Line =
  valid :: bool
  dirty :: bool
  tag :: u64

text \<open>
  The replacement policy is the template parameter \<open>ReplacePolicy\<close>; the header that
  declares the policies is not part of the sources, so a policy is taken as a parameter:
  its state \<open>'p\<close> and the four operations the cache calls on it. \<open>GetVictim\<close> may
  change the policy's state.
\<close>

record 'p policy_ops =
  construct :: "nat \<Rightarrow> nat \<Rightarrow> 'p"
  OnHit :: "nat \<Rightarrow> nat \<Rightarrow> 'p \<Rightarrow> 'p"
  OnFill :: "nat \<Rightarrow> nat \<Rightarrow> 'p \<Rightarrow> 'p"
  GetVictim :: "nat \<Rightarrow> 'p \<Rightarrow> nat \<times> 'p"

text \<open>The template parameters of \<open>Cache\<close> (but \<open>NextLayer\<close>), and its data members
  (but \<open>next\<close>); the trailing underscore of their C++ names is dropped.\<close>

record 'p Cache_params =
  Name :: string
  Sets :: u64
  Ways :: nat
  BlockSize :: u64
  ReplacePolicy :: "'p policy_ops"
  HitLatency :: u64

record 'p Cache_fields =
  sets :: "Line list list"
  policy :: 'p
  hits :: u64
  misses :: u64
  evictions :: u64

text \<open>An operation of a layer on its object of type \<open>'n\<close>: \<open>Load\<close> or \<open>Store\<close> of the
  template parameter \<open>NextLayer\<close>.\<close>

type_synonym 'n access = "u64 \<Rightarrow> 'n \<Rightarrow> fault + (AccessResult \<times> 'n)"

section \<open>One cache level, generic in the next layer\<close>

text \<open>Lines 134-135 and 161-162: the address decomposition; line 222: the address of
  the evicted block.\<close>

definition divisors_ok :: "'p Cache_params \<Rightarrow> bool" where
  "divisors_ok P \<longleftrightarrow> BlockSize P \<noteq> 0 \<and> Sets P \<noteq> 0 \<and> BlockSize P * Sets P \<noteq> 0"

definition set_idx_of :: "'p Cache_params \<Rightarrow> u64 \<Rightarrow> u64" where
  "set_idx_of P addr = (addr div BlockSize P) mod Sets P"

definition tag_of :: "'p Cache_params \<Rightarrow> u64 \<Rightarrow> u64" where
  "tag_of P addr = addr div (BlockSize P * Sets P)"

definition evict_addr :: "'p Cache_params \<Rightarrow> u64 \<Rightarrow> u64 \<Rightarrow> u64" where
  "evict_addr P victim_tag set_idx = (victim_tag * Sets P + set_idx) * BlockSize P"

text \<open>The tag scan of lines 138-145, 165-173 and 184-189: the first way, in ascending
  order, whose line is valid and holds the tag.\<close>

definition tag_lookup :: "nat \<Rightarrow> Line list \<Rightarrow> u64 \<Rightarrow> nat option" where
  "tag_lookup W ls t = find (\<lambda>way_idx. valid (ls ! way_idx) \<and> tag (ls ! way_idx) = t) [0..<W]"

text \<open>Lines 211-216: the first way whose line is not valid.\<close>

definition first_invalid :: "nat \<Rightarrow> Line list \<Rightarrow> nat option" where
  "first_invalid W ls = find (\<lambda>way_idx. \<not> valid (ls ! way_idx)) [0..<W]"

text \<open>Lines 228-231: the chosen line is overwritten and the policy is told.\<close>

definition install :: "'p Cache_params \<Rightarrow> u64 \<Rightarrow> u64 \<Rightarrow> nat \<Rightarrow> 'p Cache_fields \<Rightarrow> 'p Cache_fields" where
  "install P set_idx t victim_way_idx c =
     c\<lparr>sets := (sets c)[unat set_idx :=
            (sets c ! unat set_idx)[victim_way_idx := \<lparr>valid = True, dirty = False, tag = t\<rparr>]],
       policy := OnFill (ReplacePolicy P) (unat set_idx) victim_way_idx (policy c)\<rparr>"

text \<open>\<open>Cache::Fill\<close>, lines 209-232. The write-back of line 223 is the one call of the
  next layer's \<open>Store\<close>; its result is dropped.\<close>

definition Fill :: "'p Cache_params \<Rightarrow> 'n access \<Rightarrow> u64 \<Rightarrow> u64 \<Rightarrow> 'p Cache_fields \<times> 'n
    \<Rightarrow> fault + ('p Cache_fields \<times> 'n)" where
  "Fill P next_Store set_idx t cn =
     (case cn of (c, n) \<Rightarrow>
        (case first_invalid (Ways P) (sets c ! unat set_idx) of
           Some victim_way_idx \<Rightarrow> Inr (install P set_idx t victim_way_idx c, n)
         | None \<Rightarrow>
             (case GetVictim (ReplacePolicy P) (unat set_idx) (policy c) of
                (victim_way_idx, pol) \<Rightarrow>
                  if Ways P \<le> victim_way_idx then Inl IndexOutOfRange
                  else let victim = sets c ! unat set_idx ! victim_way_idx;
                           c1 = c\<lparr>policy := pol\<rparr>
                       in if valid victim \<and> dirty victim
                          then (case next_Store (evict_addr P (tag victim) set_idx) n of
                                  Inl e \<Rightarrow> Inl e
                                | Inr (res, n') \<Rightarrow>
                                    Inr (install P set_idx t victim_way_idx
                                           (c1\<lparr>evictions := evictions c1 + 1\<rparr>), n'))
                          else Inr (install P set_idx t victim_way_idx c1, n))))"

text \<open>\<open>Cache::Load\<close>, lines 133-158.\<close>

definition Cache_Load :: "'p Cache_params \<Rightarrow> 'n access \<Rightarrow> 'n access \<Rightarrow> u64 \<Rightarrow> 'p Cache_fields \<times> 'n
    \<Rightarrow> fault + (AccessResult \<times> 'p Cache_fields \<times> 'n)" where
  "Cache_Load P next_Load next_Store addr cn =
     (case cn of (c, n) \<Rightarrow>
        if \<not> divisors_ok P then Inl DivisionByZero
        else let set_idx = set_idx_of P addr; t = tag_of P addr in
          (case tag_lookup (Ways P) (sets c ! unat set_idx) t of
             Some way_idx \<Rightarrow>
               Inr (\<lparr>hit_level = Name P, total_cycles = HitLatency P\<rparr>,
                    c\<lparr>hits := hits c + 1,
                      policy := OnHit (ReplacePolicy P) (unat set_idx) way_idx (policy c)\<rparr>, n)
           | None \<Rightarrow>
               (case next_Load addr n of
                  Inl e \<Rightarrow> Inl e
                | Inr (res, n1) \<Rightarrow>
                    (case Fill P next_Store set_idx t (c\<lparr>misses := misses c + 1\<rparr>, n1) of
                       Inl e \<Rightarrow> Inl e
                     | Inr (c2, n2) \<Rightarrow>
                         Inr (res\<lparr>total_cycles := total_cycles res + HitLatency P\<rparr>, c2, n2)))))"

text \<open>Lines 184-189: after the fill of a write miss, the first valid line with the tag
  is marked dirty.\<close>

definition mark_dirty :: "'p Cache_params \<Rightarrow> u64 \<Rightarrow> u64 \<Rightarrow> 'p Cache_fields \<Rightarrow> 'p Cache_fields" where
  "mark_dirty P set_idx t c =
     (case tag_lookup (Ways P) (sets c ! unat set_idx) t of
        Some way_idx \<Rightarrow>
          c\<lparr>sets := (sets c)[unat set_idx :=
                 (sets c ! unat set_idx)[way_idx := (sets c ! unat set_idx ! way_idx)\<lparr>dirty := True\<rparr>]]\<rparr>
      | None \<Rightarrow> c)"

text \<open>\<open>Cache::Store\<close>, lines 160-192.\<close>

definition Cache_Store :: "'p Cache_params \<Rightarrow> 'n access \<Rightarrow> 'n access \<Rightarrow> u64 \<Rightarrow> 'p Cache_fields \<times> 'n
    \<Rightarrow> fault + (AccessResult \<times> 'p Cache_fields \<times> 'n)" where
  "Cache_Store P next_Load next_Store addr cn =
     (case cn of (c, n) \<Rightarrow>
        if \<not> divisors_ok P then Inl DivisionByZero
        else let set_idx = set_idx_of P addr; t = tag_of P addr in
          (case tag_lookup (Ways P) (sets c ! unat set_idx) t of
             Some way_idx \<Rightarrow>
               Inr (\<lparr>hit_level = Name P, total_cycles = HitLatency P\<rparr>,
                    c\<lparr>hits := hits c + 1,
                      sets := (sets c)[unat set_idx :=
                         (sets c ! unat set_idx)[way_idx :=
                            (sets c ! unat set_idx ! way_idx)\<lparr>dirty := True\<rparr>]],
                      policy := OnHit (ReplacePolicy P) (unat set_idx) way_idx (policy c)\<rparr>, n)
           | None \<Rightarrow>
               (case next_Load addr n of
                  Inl e \<Rightarrow> Inl e
                | Inr (res, n1) \<Rightarrow>
                    (case Fill P next_Store set_idx t (c\<lparr>misses := misses c + 1\<rparr>, n1) of
                       Inl e \<Rightarrow> Inl e
                     | Inr (c2, n2) \<Rightarrow>
                         Inr (res\<lparr>total_cycles := total_cycles res + HitLatency P\<rparr>,
                              mark_dirty P set_idx t c2, n2)))))"

section \<open>The chain of layers\<close>

text \<open>
  A hierarchy is a C++ type, \<open>Cache<"L1", Cache<"L2", MainMemory<>, ...>, ...>\<close>, and an
  object of that type. The type is a \<open>Layer\<close>: the template arguments of every level,
  down to the name of the main memory. The object is an \<open>Obj\<close>: the data members of
  every level, \<open>next\<close> being the object of the next layer, down to \<open>latency\<close>.
\<close>

datatype 'p Layer = MainMemory string | Cache "'p Cache_params" "'p Layer"

datatype 'p Obj = MainMemory_obj u64 | Cache_obj "'p Cache_fields" "'p Obj"

fun Load :: "'p Layer \<Rightarrow> u64 \<Rightarrow> 'p Obj \<Rightarrow> fault + (AccessResult \<times> 'p Obj)"
and Store :: "'p Layer \<Rightarrow> u64 \<Rightarrow> 'p Obj \<Rightarrow> fault + (AccessResult \<times> 'p Obj)" where
  "Load (MainMemory nm) addr (MainMemory_obj latency) =
     Inr (\<lparr>hit_level = nm, total_cycles = latency\<rparr>, MainMemory_obj latency)"
| "Load (Cache P N) addr (Cache_obj c n) =
     (case Cache_Load P (Load N) (Store N) addr (c, n) of
        Inl e \<Rightarrow> Inl e
      | Inr (res, c', n') \<Rightarrow> Inr (res, Cache_obj c' n'))"
| "Load (MainMemory nm) addr (Cache_obj c n) = Inl TypeMismatch"
| "Load (Cache P N) addr (MainMemory_obj latency) = Inl TypeMismatch"
| "Store (MainMemory nm) addr (MainMemory_obj latency) =
     Inr (\<lparr>hit_level = nm, total_cycles = latency\<rparr>, MainMemory_obj latency)"
| "Store (Cache P N) addr (Cache_obj c n) =
     (case Cache_Store P (Load N) (Store N) addr (c, n) of
        Inl e \<Rightarrow> Inl e
      | Inr (res, c', n') \<Rightarrow> Inr (res, Cache_obj c' n'))"
| "Store (MainMemory nm) addr (Cache_obj c n) = Inl TypeMismatch"
| "Store (Cache P N) addr (MainMemory_obj latency) = Inl TypeMismatch"

text \<open>The names of the levels of a chain, from the top to the main memory.\<close>

fun level_names :: "'p Layer \<Rightarrow> string list" where
  "level_names (MainMemory nm) = [nm]"
| "level_names (Cache P N) = Name P # level_names N"

text \<open>The constructors, lines 90 and 128-131: every line of every set starts as
  \<open>Line{}\<close>, the counters at 0, and the arguments go down to the main memory.\<close>

definition Cache_init :: "'p Cache_params \<Rightarrow> 'p Cache_fields" where
  "Cache_init P =
     \<lparr>sets = replicate (unat (Sets P)) (replicate (Ways P) \<lparr>valid = False, dirty = False, tag = 0\<rparr>),
      policy = construct (ReplacePolicy P) (unat (Sets P)) (Ways P),
      hits = 0, misses = 0, evictions = 0\<rparr>"

fun construct_obj :: "'p Layer \<Rightarrow> u64 \<Rightarrow> 'p Obj" where
  "construct_obj (MainMemory nm) lat = MainMemory_obj lat"
| "construct_obj (Cache P N) lat = Cache_obj (Cache_init P) (construct_obj N lat)"

text \<open>The shape the constructor gives \<open>sets\<close>, which no member function changes:
  \<open>Sets\<close> sets of \<open>Ways\<close> lines each; and an object that has the type of its layer.\<close>

definition dims_ok :: "'p Cache_params \<Rightarrow> 'p Cache_fields \<Rightarrow> bool" where
  "dims_ok P c \<longleftrightarrow> length (sets c) = unat (Sets P) \<and> list_all (\<lambda>ls. length ls = Ways P) (sets c)"

fun well_typed :: "'p Layer \<Rightarrow> 'p Obj \<Rightarrow> bool" where
  "well_typed (MainMemory nm) (MainMemory_obj lat) = True"
| "well_typed (Cache P N) (Cache_obj c n) = (dims_ok P c \<and> well_typed N n)"
| "well_typed (MainMemory nm) (Cache_obj c n) = False"
| "well_typed (Cache P N) (MainMemory_obj lat) = False"

text \<open>
  Modelled from the spec: the driver of section 4.4 (AccessSimulator), whose code is not
  part of the sources. It takes the accesses in order, calls \<open>Load\<close> or \<open>Store\<close> of the
  top of the chain for each and collects the results. It is generic in the top layer.
\<close>

fun simulate :: "'n access \<Rightarrow> 'n access \<Rightarrow> (AccessType \<times> u64) list \<Rightarrow> 'n
    \<Rightarrow> fault + (AccessResult list \<times> 'n)" where
  "simulate top_Load top_Store [] st = Inr ([], st)"
| "simulate top_Load top_Store ((ty, addr) # rest) st =
     (case (case ty of kLoad \<Rightarrow> top_Load addr st | kStore \<Rightarrow> top_Store addr st) of
        Inl e \<Rightarrow> Inl e
      | Inr (res, st1) \<Rightarrow>
          (case simulate top_Load top_Store rest st1 of
             Inl e \<Rightarrow> Inl e
           | Inr (ress, st2) \<Rightarrow> Inr (res # ress, st2)))"

text \<open>
  Modelled from the spec: \<open>LRUPolicy\<close> of \<open>stratum/policies.hpp\<close>, which is not part of
  the sources (section 4.2): per set a recency order of the way indices, most recent
  first; a hit and a fill move the way to the front, the victim is the way at the end.
\<close>

definition LRU_touch :: "nat \<Rightarrow> nat \<Rightarrow> nat list list \<Rightarrow> nat list list" where
  "LRU_touch set_idx way_idx st = st[set_idx := way_idx # remove1 way_idx (st ! set_idx)]"

definition LRUPolicy :: "nat list list policy_ops" where
  "LRUPolicy =
     \<lparr>construct = (\<lambda>num_sets num_ways. replicate num_sets [0..<num_ways]),
      OnHit = LRU_touch,
      OnFill = LRU_touch,
      GetVictim = (\<lambda>set_idx st. (if st ! set_idx = [] then 0 else last (st ! set_idx), st))\<rparr>"

text \<open>
  A next layer for observing a level from below: a main memory of latency \<open>lat\<close> that
  keeps the list of the calls it received, in order. \<open>Cache\<close> is a template in its next
  layer, so this is one of its instances.
\<close>

definition Probe_Load :: "string \<Rightarrow> u64 \<Rightarrow> (AccessType \<times> u64) list access" where
  "Probe_Load nm lat addr calls = Inr (\<lparr>hit_level = nm, total_cycles = lat\<rparr>, calls @ [(kLoad, addr)])"

definition Probe_Store :: "string \<Rightarrow> u64 \<Rightarrow> (AccessType \<times> u64) list access" where
  "Probe_Store nm lat addr calls = Inr (\<lparr>hit_level = nm, total_cycles = lat\<rparr>, calls @ [(kStore, addr)])"

text \<open>The configurations used as concrete inputs: the level of the scenario of the
  spec's section 8, and small variations of it.\<close>

definition L1_params :: "u64 \<Rightarrow> nat \<Rightarrow> u64 \<Rightarrow> nat list list Cache_params" where
  "L1_params num_sets num_ways block_size =
     \<lparr>Name = ''L1'', Sets = num_sets, Ways = num_ways, BlockSize = block_size,
      ReplacePolicy = LRUPolicy, HitLatency = 1\<rparr>"

definition L2_params :: "u64 \<Rightarrow> nat \<Rightarrow> u64 \<Rightarrow> nat list list Cache_params" where
  "L2_params num_sets num_ways block_size =
     \<lparr>Name = ''L2'', Sets = num_sets, Ways = num_ways, BlockSize = block_size,
      ReplacePolicy = LRUPolicy, HitLatency = 10\<rparr>"

definition scenario_chain :: "nat list list Layer" where
  "scenario_chain = Cache (L1_params 1 1 4) (MainMemory ''MainMemory'')"

definition two_level_chain :: "nat list list Layer" where
  "two_level_chain = Cache (L1_params 1 1 4) (Cache (L2_params 1 2 4) (MainMemory ''MainMemory''))"

section \<open>Predicates and projections used in the statements\<close>

text \<open>Tag uniqueness (section 3 of the spec): in one set, the tags of the valid lines are
  pairwise distinct; and the same for every set of every level of an object.\<close>

definition tag_unique_set :: "Line list \<Rightarrow> bool" where
  "tag_unique_set ls \<longleftrightarrow> distinct (map tag (filter valid ls))"

fun tags_unique :: "'p Obj \<Rightarrow> bool" where
  "tags_unique (MainMemory_obj lat) = True"
| "tags_unique (Cache_obj c n) = (list_all tag_unique_set (sets c) \<and> tags_unique n)"

text \<open>A chain none of whose divisions divides by zero and whose sets have a way.\<close>

fun config_ok :: "'p Layer \<Rightarrow> bool" where
  "config_ok (MainMemory nm) = True"
| "config_ok (Cache P N) = (divisors_ok P \<and> 0 < Ways P \<and> config_ok N)"

text \<open>The lines of an object, level by level from the top, and its counters.\<close>

fun all_lines :: "'p Obj \<Rightarrow> Line list list list" where
  "all_lines (MainMemory_obj lat) = []"
| "all_lines (Cache_obj c n) = sets c # all_lines n"

fun hit_counts :: "'p Obj \<Rightarrow> u64 list" where
  "hit_counts (MainMemory_obj lat) = []"
| "hit_counts (Cache_obj c n) = hits c # hit_counts n"

fun miss_counts :: "'p Obj \<Rightarrow> u64 list" where
  "miss_counts (MainMemory_obj lat) = []"
| "miss_counts (Cache_obj c n) = misses c # miss_counts n"

fun eviction_counts :: "'p Obj \<Rightarrow> u64 list" where
  "eviction_counts (MainMemory_obj lat) = []"
| "eviction_counts (Cache_obj c n) = evictions c # eviction_counts n"

fun policies :: "'p Obj \<Rightarrow> 'p list" where
  "policies (MainMemory_obj lat) = []"
| "policies (Cache_obj c n) = policy c # policies n"

text \<open>The name and the latency of the main memory of a chain, and the hit latencies of
  its cache levels, from the top.\<close>

fun mm_name :: "'p Layer \<Rightarrow> string" where
  "mm_name (MainMemory nm) = nm"
| "mm_name (Cache P N) = mm_name N"

fun mm_latency :: "'p Obj \<Rightarrow> u64" where
  "mm_latency (MainMemory_obj lat) = lat"
| "mm_latency (Cache_obj c n) = mm_latency n"

fun hit_latencies :: "'p Layer \<Rightarrow> u64 list" where
  "hit_latencies (MainMemory nm) = []"
| "hit_latencies (Cache P N) = HitLatency P # hit_latencies N"

text \<open>The tag scan of the top level of a chain for \<open>addr\<close> (the main memory always
  hits), and an address that no cache level of the chain holds.\<close>

fun hits_at_top :: "'p Layer \<Rightarrow> u64 \<Rightarrow> 'p Obj \<Rightarrow> bool" where
  "hits_at_top (MainMemory nm) addr (MainMemory_obj lat) = True"
| "hits_at_top (Cache P N) addr (Cache_obj c n) =
     (divisors_ok P \<and> tag_lookup (Ways P) (sets c ! unat (set_idx_of P addr)) (tag_of P addr) \<noteq> None)"
| "hits_at_top (MainMemory nm) addr (Cache_obj c n) = False"
| "hits_at_top (Cache P N) addr (MainMemory_obj lat) = False"

fun misses_everywhere :: "'p Layer \<Rightarrow> u64 \<Rightarrow> 'p Obj \<Rightarrow> bool" where
  "misses_everywhere (MainMemory nm) addr (MainMemory_obj lat) = True"
| "misses_everywhere (Cache P N) addr (Cache_obj c n) =
     (tag_lookup (Ways P) (sets c ! unat (set_idx_of P addr)) (tag_of P addr) = None
      \<and> misses_everywhere N addr n)"
| "misses_everywhere (MainMemory nm) addr (Cache_obj c n) = False"
| "misses_everywhere (Cache P N) addr (MainMemory_obj lat) = False"

text \<open>The line of way \<open>w\<close> of the set of \<open>addr\<close> holds the block of \<open>addr\<close> and is dirty.\<close>

definition resident_dirty :: "'p Cache_params \<Rightarrow> u64 \<Rightarrow> nat \<Rightarrow> 'p Cache_fields \<Rightarrow> bool" where
  "resident_dirty P addr w c \<longleftrightarrow>
     w < Ways P \<and> valid (sets c ! unat (set_idx_of P addr) ! w)
     \<and> dirty (sets c ! unat (set_idx_of P addr) ! w)
     \<and> tag (sets c ! unat (set_idx_of P addr) ! w) = tag_of P addr"

fun serving_depth :: "'p Layer \<Rightarrow> u64 \<Rightarrow> 'p Obj \<Rightarrow> nat" where
  "serving_depth (Cache P N) addr (Cache_obj c n) =
     (if tag_lookup (Ways P) (sets c ! unat (set_idx_of P addr)) (tag_of P addr) = None
      then Suc (serving_depth N addr n) else 0)"
| "serving_depth (Cache P N) addr (MainMemory_obj lat) = 0"
| "serving_depth (MainMemory nm) addr st = 0"

text \<open>\<open>Fill\<close> indexes the set with the way it chose (line 221). The call is defined when
  some way of the set is invalid, or the policy answers a way below \<open>Ways\<close>.\<close>

definition victim_ok :: "'p Cache_params \<Rightarrow> 'p Cache_fields \<Rightarrow> u64 \<Rightarrow> bool" where
  "victim_ok P c set_idx \<longleftrightarrow>
     first_invalid (Ways P) (sets c ! unat set_idx) \<noteq> None
     \<or> fst (GetVictim (ReplacePolicy P) (unat set_idx) (policy c)) < Ways P"

text \<open>One access to a level, of either type, as \<open>simulate\<close> issues it.\<close>

definition Cache_access :: "AccessType \<Rightarrow> 'p Cache_params \<Rightarrow> 'n access \<Rightarrow> 'n access \<Rightarrow> u64
    \<Rightarrow> 'p Cache_fields \<times> 'n \<Rightarrow> fault + (AccessResult \<times> 'p Cache_fields \<times> 'n)" where
  "Cache_access ty P next_Load next_Store addr cn =
     (case ty of kLoad \<Rightarrow> Cache_Load P next_Load next_Store addr cn
               | kStore \<Rightarrow> Cache_Store P next_Load next_Store addr cn)"

text \<open>The tag of a valid line of set \<open>s\<close> is one that the address rebuilt from it (line
  222) decomposes back to, together with \<open>s\<close>; and so for every line of every set.\<close>

definition line_rebuilds :: "'p Cache_params \<Rightarrow> nat \<Rightarrow> Line \<Rightarrow> bool" where
  "line_rebuilds P s l \<longleftrightarrow>
     \<not> valid l
     \<or> (set_idx_of P (evict_addr P (tag l) (of_nat s)) = of_nat s
        \<and> tag_of P (evict_addr P (tag l) (of_nat s)) = tag l)"

definition tags_rebuild :: "'p Cache_params \<Rightarrow> 'p Cache_fields \<Rightarrow> bool" where
  "tags_rebuild P c \<longleftrightarrow>
     list_all (\<lambda>s. list_all (line_rebuilds P s) (sets c ! s)) [0..<length (sets c)]"

text \<open>What the constructor establishes and every access keeps, at one level: the shape of
  \<open>sets\<close>, tag uniqueness in every set, and tags that rebuild.\<close>

definition level_inv :: "'p Cache_params \<Rightarrow> 'p Cache_fields \<Rightarrow> bool" where
  "level_inv P c \<longleftrightarrow> dims_ok P c \<and> list_all tag_unique_set (sets c) \<and> tags_rebuild P c"

section \<open>The outcomes of the operations\<close>

lemma find_upt_Some: "find Q [0..<W] = Some w \<longleftrightarrow> w < W \<and> Q w \<and> (\<forall>j<w. \<not> Q j)"
  by (auto simp: find_Some_iff)

lemma find_upt_None: "find Q [0..<W] = None \<longleftrightarrow> (\<forall>w<W. \<not> Q w)"
  by (auto simp: find_None_iff)

lemma tag_lookup_Some:
  "tag_lookup W ls t = Some w \<longleftrightarrow>
     w < W \<and> valid (ls ! w) \<and> tag (ls ! w) = t \<and> (\<forall>j<w. \<not> (valid (ls ! j) \<and> tag (ls ! j) = t))"
  unfolding tag_lookup_def by (simp add: find_upt_Some conj_assoc)

lemma tag_lookup_None:
  "tag_lookup W ls t = None \<longleftrightarrow> (\<forall>w<W. \<not> (valid (ls ! w) \<and> tag (ls ! w) = t))"
  unfolding tag_lookup_def by (simp add: find_upt_None)

lemma first_invalid_Some:
  "first_invalid W ls = Some w \<longleftrightarrow> w < W \<and> \<not> valid (ls ! w) \<and> (\<forall>j<w. valid (ls ! j))"
  unfolding first_invalid_def by (simp add: find_upt_Some)

lemma first_invalid_None:
  "first_invalid W ls = None \<longleftrightarrow> (\<forall>w<W. valid (ls ! w))"
  unfolding first_invalid_def by (simp add: find_upt_None)

lemma first_invalid_exists:
  assumes "w < W" "\<not> valid (ls ! w)"
  shows "\<exists>w0. first_invalid W ls = Some w0"
proof (cases "first_invalid W ls")
  case None
  with assms show ?thesis by (simp add: first_invalid_None)
qed simp

lemma Fill_first_invalid:
  "first_invalid (Ways P) (sets c ! unat set_idx) = Some w0 \<Longrightarrow>
   Fill P next_Store set_idx t (c, n) = Inr (install P set_idx t w0 c, n)"
  by (simp add: Fill_def)

lemma install_GetVictim_irrelevant:
  "install (P\<lparr>ReplacePolicy := (ReplacePolicy P)\<lparr>GetVictim := g\<rparr>\<rparr>) = install P"
  by (simp add: install_def fun_eq_iff)

lemma Fill_InrE:
  assumes "Fill P next_Store set_idx t (c, n) = Inr (c', n')"
  obtains (free) w where "first_invalid (Ways P) (sets c ! unat set_idx) = Some w"
      "c' = install P set_idx t w c" "n' = n"
  | (clean) v pol where "first_invalid (Ways P) (sets c ! unat set_idx) = None"
      "GetVictim (ReplacePolicy P) (unat set_idx) (policy c) = (v, pol)" "v < Ways P"
      "\<not> (valid (sets c ! unat set_idx ! v) \<and> dirty (sets c ! unat set_idx ! v))"
      "c' = install P set_idx t v (c\<lparr>policy := pol\<rparr>)" "n' = n"
  | (writeback) v pol res where "first_invalid (Ways P) (sets c ! unat set_idx) = None"
      "GetVictim (ReplacePolicy P) (unat set_idx) (policy c) = (v, pol)" "v < Ways P"
      "valid (sets c ! unat set_idx ! v)" "dirty (sets c ! unat set_idx ! v)"
      "next_Store (evict_addr P (tag (sets c ! unat set_idx ! v)) set_idx) n = Inr (res, n')"
      "c' = install P set_idx t v (c\<lparr>policy := pol, evictions := evictions c + 1\<rparr>)"
  using assms
  by (auto simp: Fill_def Let_def split: option.splits prod.splits if_splits sum.splits)

lemma Cache_Load_InrE:
  assumes "Cache_Load P next_Load next_Store addr (c, n) = Inr (r, c', n')"
  obtains (hit) w where "divisors_ok P"
      "tag_lookup (Ways P) (sets c ! unat (set_idx_of P addr)) (tag_of P addr) = Some w"
      "r = \<lparr>hit_level = Name P, total_cycles = HitLatency P\<rparr>"
      "c' = c\<lparr>hits := hits c + 1,
              policy := OnHit (ReplacePolicy P) (unat (set_idx_of P addr)) w (policy c)\<rparr>"
      "n' = n"
  | (miss) res n1 where "divisors_ok P"
      "tag_lookup (Ways P) (sets c ! unat (set_idx_of P addr)) (tag_of P addr) = None"
      "next_Load addr n = Inr (res, n1)"
      "r = res\<lparr>total_cycles := total_cycles res + HitLatency P\<rparr>"
      "Fill P next_Store (set_idx_of P addr) (tag_of P addr) (c\<lparr>misses := misses c + 1\<rparr>, n1) = Inr (c', n')"
  using assms
  by (auto simp: Cache_Load_def Let_def split: option.splits prod.splits if_splits sum.splits)

lemma Cache_Store_InrE:
  assumes "Cache_Store P next_Load next_Store addr (c, n) = Inr (r, c', n')"
  obtains (hit) w where "divisors_ok P"
      "tag_lookup (Ways P) (sets c ! unat (set_idx_of P addr)) (tag_of P addr) = Some w"
      "r = \<lparr>hit_level = Name P, total_cycles = HitLatency P\<rparr>"
      "c' = c\<lparr>hits := hits c + 1,
              sets := (sets c)[unat (set_idx_of P addr) :=
                 (sets c ! unat (set_idx_of P addr))[w :=
                    (sets c ! unat (set_idx_of P addr) ! w)\<lparr>dirty := True\<rparr>]],
              policy := OnHit (ReplacePolicy P) (unat (set_idx_of P addr)) w (policy c)\<rparr>"
      "n' = n"
  | (miss) res n1 c2 where "divisors_ok P"
      "tag_lookup (Ways P) (sets c ! unat (set_idx_of P addr)) (tag_of P addr) = None"
      "next_Load addr n = Inr (res, n1)"
      "r = res\<lparr>total_cycles := total_cycles res + HitLatency P\<rparr>"
      "Fill P next_Store (set_idx_of P addr) (tag_of P addr) (c\<lparr>misses := misses c + 1\<rparr>, n1) = Inr (c2, n')"
      "c' = mark_dirty P (set_idx_of P addr) (tag_of P addr) c2"
  using assms
  by (auto simp: Cache_Store_def Let_def split: option.splits prod.splits if_splits sum.splits)

lemma Load_Cache_Inr:
  "Load (Cache P N) addr st = Inr (r, st') \<longleftrightarrow>
     (\<exists>c n c' n'. st = Cache_obj c n \<and> st' = Cache_obj c' n'
        \<and> Cache_Load P (Load N) (Store N) addr (c, n) = Inr (r, c', n'))"
  by (cases st) (auto split: sum.splits)

lemma Store_Cache_Inr:
  "Store (Cache P N) addr st = Inr (r, st') \<longleftrightarrow>
     (\<exists>c n c' n'. st = Cache_obj c n \<and> st' = Cache_obj c' n'
        \<and> Cache_Store P (Load N) (Store N) addr (c, n) = Inr (r, c', n'))"
  by (cases st) (auto split: sum.splits)

lemma Load_MainMemory_Inr:
  "Load (MainMemory nm) addr st = Inr (r, st') \<longleftrightarrow>
     (\<exists>lat. st = MainMemory_obj lat \<and> st' = st \<and> r = \<lparr>hit_level = nm, total_cycles = lat\<rparr>)"
  by (cases st) auto

lemma Store_MainMemory_Inr:
  "Store (MainMemory nm) addr st = Inr (r, st') \<longleftrightarrow>
     (\<exists>lat. st = MainMemory_obj lat \<and> st' = st \<and> r = \<lparr>hit_level = nm, total_cycles = lat\<rparr>)"
  by (cases st) auto


lemma Load_Cache_obj_Inr:
  "Load (Cache P N) addr (Cache_obj c n) = Inr (r, st') \<longleftrightarrow>
     (\<exists>c' n'. st' = Cache_obj c' n' \<and> Cache_Load P (Load N) (Store N) addr (c, n) = Inr (r, c', n'))"
  by (auto split: sum.splits)

lemma Store_Cache_obj_Inr:
  "Store (Cache P N) addr (Cache_obj c n) = Inr (r, st') \<longleftrightarrow>
     (\<exists>c' n'. st' = Cache_obj c' n' \<and> Cache_Store P (Load N) (Store N) addr (c, n) = Inr (r, c', n'))"
  by (auto split: sum.splits)

lemma Load_hit_top:
  assumes "divisors_ok P"
    and "tag_lookup (Ways P) (sets c ! unat (set_idx_of P addr)) (tag_of P addr) = Some w"
  shows "Load (Cache P N) addr (Cache_obj c n)
         = Inr (\<lparr>hit_level = Name P, total_cycles = HitLatency P\<rparr>,
                Cache_obj (c\<lparr>hits := hits c + 1,
                             policy := OnHit (ReplacePolicy P) (unat (set_idx_of P addr)) w (policy c)\<rparr>) n)"
  using assms by (simp add: Cache_Load_def)

lemma Store_hit_top:
  assumes "divisors_ok P"
    and "tag_lookup (Ways P) (sets c ! unat (set_idx_of P addr)) (tag_of P addr) = Some w"
  shows "\<exists>c'. Store (Cache P N) addr (Cache_obj c n)
         = Inr (\<lparr>hit_level = Name P, total_cycles = HitLatency P\<rparr>, Cache_obj c' n)"
  using assms by (simp add: Cache_Store_def Let_def)

section \<open>The address decomposition and its inverse\<close>

lemma nat_recompose:
  fixes a B S :: nat
  assumes "0 < B" "0 < S"
  shows "(a div (B * S)) * S + (a div B) mod S = a div B"
proof -
  have "a div (B * S) = (a div B) div S" by (simp add: div_mult2_eq)
  then show ?thesis by (simp add: mult.commute)
qed

lemma unat_decompose:
  assumes "BlockSize P \<noteq> 0" "Sets P \<noteq> 0" "unat (BlockSize P) * unat (Sets P) < 2 ^ 64"
  shows "unat (set_idx_of P addr) = (unat addr div unat (BlockSize P)) mod unat (Sets P)"
    and "unat (tag_of P addr) = unat addr div (unat (BlockSize P) * unat (Sets P))"
proof -
  show "unat (set_idx_of P addr) = (unat addr div unat (BlockSize P)) mod unat (Sets P)"
    by (simp add: set_idx_of_def unat_mod unat_div)
  have "unat (BlockSize P * Sets P) = unat (BlockSize P) * unat (Sets P)"
    using assms(3) by (simp add: unat_word_ariths)
  then show "unat (tag_of P addr) = unat addr div (unat (BlockSize P) * unat (Sets P))"
    by (simp add: tag_of_def unat_div)
qed

lemma unat_evict_addr:
  assumes "BlockSize P \<noteq> 0" "Sets P \<noteq> 0" "unat (BlockSize P) * unat (Sets P) < 2 ^ 64"
  shows "unat (evict_addr P (tag_of P addr) (set_idx_of P addr)) = (unat addr div unat (BlockSize P)) * unat (BlockSize P)"
    and "(unat (tag_of P addr) * unat (Sets P) + unat (set_idx_of P addr)) * unat (BlockSize P) \<le> unat addr"
proof -
  let ?B = "unat (BlockSize P)" and ?S = "unat (Sets P)" and ?a = "unat addr"
  let ?t = "tag_of P addr" and ?s = "set_idx_of P addr"
  have B: "0 < ?B" and S: "0 < ?S" using assms by (simp_all add: unat_gt_0)
  have q: "unat ?t * ?S + unat ?s = ?a div ?B"
    using nat_recompose [OF B S, of ?a] by (simp add: unat_decompose [OF assms])
  have le: "(?a div ?B) * ?B \<le> ?a" by simp
  show "(unat ?t * ?S + unat ?s) * ?B \<le> ?a"
    using q le by simp
  have lt: "?a < 2 ^ LENGTH(64)" by (rule unsigned_less)
  have qlt: "?a div ?B < 2 ^ LENGTH(64)"
    using lt by (meson div_le_dividend le_less_trans)
  have "unat ?t * ?S < 2 ^ LENGTH(64)" using q qlt by linarith
  then have m: "unat (?t * Sets P) = unat ?t * ?S" by (simp only: unat_mult_lem)
  have "unat (?t * Sets P) + unat ?s < 2 ^ LENGTH(64)" using q qlt m by linarith
  then have "unat (?t * Sets P + ?s) = unat (?t * Sets P) + unat ?s" by (simp only: unat_add_lem)
  then have s: "unat (?t * Sets P + ?s) = ?a div ?B" using m q by simp
  have "unat (?t * Sets P + ?s) * ?B \<le> ?a" using le by (simp only: s)
  then have "unat (?t * Sets P + ?s) * ?B < 2 ^ LENGTH(64)" using lt by (rule le_less_trans)
  then have "unat ((?t * Sets P + ?s) * BlockSize P) = unat (?t * Sets P + ?s) * ?B"
    by (simp only: unat_mult_lem)
  then show "unat (evict_addr P ?t ?s) = (?a div ?B) * ?B"
    using s by (simp add: evict_addr_def)
qed

text \<open>
  C1, as stated: for every address and every level, the address rebuilt from the
  tag and the set index decomposes to the same set index and tag, and rebuilding it does
  not overflow. This fails where \<open>BlockSize * Sets\<close> wraps around in 64 bits: with
  \<open>Sets = 3\<close> and \<open>BlockSize = 2^63\<close> the divisor of the tag is \<open>2^63\<close>, the address
  \<open>2^63\<close> has set index 1 and tag 1, and \<open>(1 * 3 + 1) * 2^63\<close> overflows to 0, whose
  set index is 0.
\<close>

theorem evict_addr_wraps_counterexample:
  "set_idx_of (L1_params 3 1 (2 ^ 63)) (2 ^ 63) = 1
   \<and> tag_of (L1_params 3 1 (2 ^ 63)) (2 ^ 63) = 1
   \<and> evict_addr (L1_params 3 1 (2 ^ 63)) 1 1 = 0
   \<and> set_idx_of (L1_params 3 1 (2 ^ 63)) 0 = 0
   \<and> tag_of (L1_params 3 1 (2 ^ 63)) 0 = 0
   \<and> \<not> (unat (1 :: u64) * unat (Sets (L1_params 3 1 (2 ^ 63))) + unat (1 :: u64))
          * unat (BlockSize (L1_params 3 1 (2 ^ 63))) < 2 ^ 64"
  by (simp add: L1_params_def set_idx_of_def tag_of_def evict_addr_def)

text \<open>
  C1, amended: for every address and every level whose \<open>Sets\<close> and \<open>BlockSize\<close> are not
  zero and whose product \<open>BlockSize * Sets\<close> fits in 64 bits, the address rebuilt from
  the tag and the set index of \<open>addr\<close> has the set index and the tag of \<open>addr\<close>, it is
  \<open>addr\<close> rounded down to a multiple of \<open>BlockSize\<close>, and the exact value of
  \<open>(tag * Sets + set) * BlockSize\<close> is below \<open>2^64\<close>: nothing wraps around.
\<close>

theorem evict_addr_inverts_decomposition:
  assumes "BlockSize P \<noteq> 0" "Sets P \<noteq> 0" "unat (BlockSize P) * unat (Sets P) < 2 ^ 64"
  shows "set_idx_of P (evict_addr P (tag_of P addr) (set_idx_of P addr)) = set_idx_of P addr
       \<and> tag_of P (evict_addr P (tag_of P addr) (set_idx_of P addr)) = tag_of P addr
       \<and> unat (evict_addr P (tag_of P addr) (set_idx_of P addr)) = unat addr - unat addr mod unat (BlockSize P)
       \<and> (unat (tag_of P addr) * unat (Sets P) + unat (set_idx_of P addr)) * unat (BlockSize P) < 2 ^ 64"
proof -
  let ?B = "unat (BlockSize P)" and ?S = "unat (Sets P)" and ?a = "unat addr"
  let ?e = "evict_addr P (tag_of P addr) (set_idx_of P addr)"
  have B: "0 < ?B" and S: "0 < ?S" using assms by (simp_all add: unat_gt_0)
  have e: "unat ?e = (?a div ?B) * ?B" by (rule unat_evict_addr(1) [OF assms])
  have ediv: "unat ?e div ?B = ?a div ?B" using e B by simp
  have "unat (set_idx_of P ?e) = unat (set_idx_of P addr)"
    by (simp add: unat_decompose(1) [OF assms] ediv)
  then have 1: "set_idx_of P ?e = set_idx_of P addr" by (simp only: word_unat_eq_iff)
  have "unat (tag_of P ?e) = unat (tag_of P addr)"
    by (simp add: unat_decompose(2) [OF assms] div_mult2_eq ediv)
  then have 2: "tag_of P ?e = tag_of P addr" by (simp only: word_unat_eq_iff)
  have 3: "unat ?e = ?a - ?a mod ?B" using e by (simp add: minus_mod_eq_div_mult)
  have "(unat (tag_of P addr) * ?S + unat (set_idx_of P addr)) * ?B \<le> ?a"
    by (rule unat_evict_addr(2) [OF assms])
  moreover have "?a < 2 ^ 64" using unsigned_less [of addr] by simp
  ultimately have 4: "(unat (tag_of P addr) * ?S + unat (set_idx_of P addr)) * ?B < 2 ^ 64"
    by (rule le_less_trans)
  from 1 2 3 4 show ?thesis by blast
qed

theorem evict_addr_inverts_decomposition_witness:
  "BlockSize (L1_params 4 1 16) \<noteq> 0 \<and> Sets (L1_params 4 1 16) \<noteq> 0
   \<and> unat (BlockSize (L1_params 4 1 16)) * unat (Sets (L1_params 4 1 16)) < 2 ^ 64
   \<and> set_idx_of (L1_params 4 1 16) 1000 = 2 \<and> tag_of (L1_params 4 1 16) 1000 = 15
   \<and> evict_addr (L1_params 4 1 16) 15 2 = 992
   \<and> set_idx_of (L1_params 4 1 16) 992 = 2 \<and> tag_of (L1_params 4 1 16) 992 = 15"
proof -
  have a: "BlockSize (L1_params 4 1 16) \<noteq> 0" and b: "Sets (L1_params 4 1 16) \<noteq> 0"
    and c: "unat (BlockSize (L1_params 4 1 16)) * unat (Sets (L1_params 4 1 16)) < 2 ^ 64"
    by (simp_all add: L1_params_def)
  have s: "set_idx_of (L1_params 4 1 16) 1000 = 2" and t: "tag_of (L1_params 4 1 16) 1000 = 15"
    and e: "evict_addr (L1_params 4 1 16) 15 2 = 992"
    by (simp_all add: L1_params_def set_idx_of_def tag_of_def evict_addr_def)
  from evict_addr_inverts_decomposition [OF a b c, of 1000] a b c s t e
  show ?thesis by simp
qed

section \<open>The victim selection of \<open>Fill\<close>\<close>

text \<open>
  C9: \<open>Fill\<close> asks the policy for a victim only when every way of the set is valid.
  Stated on the result of \<open>Fill\<close>: when some way \<open>w\<close> of the set is not valid, the line
  goes into the first such way \<open>w0\<close>, the next layer is not called, and the result is
  the same whatever function stands for \<open>GetVictim\<close>, so \<open>GetVictim\<close> is not consulted.
\<close>

theorem GetVictim_only_when_set_full:
  assumes "w < Ways P" and "\<not> valid (sets c ! unat set_idx ! w)"
  shows "\<exists>w0\<le>w. \<not> valid (sets c ! unat set_idx ! w0)
          \<and> (\<forall>g. Fill (P\<lparr>ReplacePolicy := (ReplacePolicy P)\<lparr>GetVictim := g\<rparr>\<rparr>) next_Store set_idx t (c, n)
                   = Inr (install P set_idx t w0 c, n))"
proof -
  from first_invalid_exists [OF assms]
  obtain w0 where w0: "first_invalid (Ways P) (sets c ! unat set_idx) = Some w0" by blast
  then have inv: "\<not> valid (sets c ! unat set_idx ! w0)" and least: "\<forall>j<w0. valid (sets c ! unat set_idx ! j)"
    by (simp_all add: first_invalid_Some)
  from least assms(2) have "w0 \<le> w" by (meson not_le)
  moreover have "Fill (P\<lparr>ReplacePolicy := (ReplacePolicy P)\<lparr>GetVictim := g\<rparr>\<rparr>) next_Store set_idx t (c, n)
                   = Inr (install P set_idx t w0 c, n)" for g
    using Fill_first_invalid [of "P\<lparr>ReplacePolicy := (ReplacePolicy P)\<lparr>GetVictim := g\<rparr>\<rparr>" c set_idx w0 next_Store t n] w0
    by (simp add: install_GetVictim_irrelevant)
  ultimately show ?thesis using inv by blast
qed


theorem GetVictim_only_when_set_full_witness:
  "(1 :: nat) < Ways (L1_params 1 2 4)
   \<and> \<not> valid (sets (Cache_init (L1_params 1 2 4)) ! unat (0 :: u64) ! 1)
   \<and> (\<exists>w0\<le>1. \<not> valid (sets (Cache_init (L1_params 1 2 4)) ! unat (0 :: u64) ! w0)
          \<and> (\<forall>g. Fill (L1_params 1 2 4\<lparr>ReplacePolicy := (ReplacePolicy (L1_params 1 2 4))\<lparr>GetVictim := g\<rparr>\<rparr>)
                     (Probe_Store ''MainMemory'' 100) 0 7 (Cache_init (L1_params 1 2 4), [])
                   = Inr (install (L1_params 1 2 4) 0 7 w0 (Cache_init (L1_params 1 2 4)), [])))"
proof -
  have a: "(1 :: nat) < Ways (L1_params 1 2 4)" by (simp add: L1_params_def)
  have b: "\<not> valid (sets (Cache_init (L1_params 1 2 4)) ! unat (0 :: u64) ! 1)"
    by (simp add: L1_params_def Cache_init_def)
  from GetVictim_only_when_set_full
         [OF a b, where next_Store = "Probe_Store ''MainMemory'' 100" and t = 7 and n = "[]"] a b
  show ?thesis by blast
qed

section \<open>The level named by a result\<close>

text \<open>
  C8: whenever \<open>Load\<close> or \<open>Store\<close> of the top of a chain returns, the \<open>hit_level\<close> of
  the result is the name of one of the levels of the chain: of one of its cache levels
  or of its main memory.
\<close>

theorem hit_level_names_a_level:
  "(Load H addr st = Inr (r, st') \<longrightarrow> hit_level r \<in> set (level_names H))
   \<and> (Store H addr st = Inr (r, st') \<longrightarrow> hit_level r \<in> set (level_names H))"
proof (induction H arbitrary: addr st r st')
  case (MainMemory nm)
  show ?case by (auto simp: Load_MainMemory_Inr Store_MainMemory_Inr)
next
  case (Cache P N)
  show ?case
  proof (intro conjI impI)
    assume "Load (Cache P N) addr st = Inr (r, st')"
    then obtain c n c' n' where "Cache_Load P (Load N) (Store N) addr (c, n) = Inr (r, c', n')"
      by (auto simp: Load_Cache_Inr)
    then show "hit_level r \<in> set (level_names (Cache P N))"
    proof (cases rule: Cache_Load_InrE)
      case (hit w)
      then show ?thesis by simp
    next
      case (miss res n1)
      with Cache.IH [of addr n res n1] show ?thesis by simp
    qed
  next
    assume "Store (Cache P N) addr st = Inr (r, st')"
    then obtain c n c' n' where "Cache_Store P (Load N) (Store N) addr (c, n) = Inr (r, c', n')"
      by (auto simp: Store_Cache_Inr)
    then show "hit_level r \<in> set (level_names (Cache P N))"
    proof (cases rule: Cache_Store_InrE)
      case (hit w)
      then show ?thesis by simp
    next
      case (miss res n1 c2)
      with Cache.IH [of addr n res n1] show ?thesis by simp
    qed
  qed
qed


theorem hit_level_names_a_level_witness:
  "Load scenario_chain 0 (construct_obj scenario_chain 100)
     = Inr (\<lparr>hit_level = ''MainMemory'', total_cycles = 101\<rparr>,
            Cache_obj \<lparr>sets = [[\<lparr>valid = True, dirty = False, tag = 0\<rparr>]], policy = [[0]],
                       hits = 0, misses = 1, evictions = 0\<rparr> (MainMemory_obj 100))
   \<and> hit_level \<lparr>hit_level = ''MainMemory'', total_cycles = 101\<rparr> \<in> set (level_names scenario_chain)
   \<and> Store scenario_chain 0 (construct_obj scenario_chain 100)
     = Inr (\<lparr>hit_level = ''MainMemory'', total_cycles = 101\<rparr>,
            Cache_obj \<lparr>sets = [[\<lparr>valid = True, dirty = True, tag = 0\<rparr>]], policy = [[0]],
                       hits = 0, misses = 1, evictions = 0\<rparr> (MainMemory_obj 100))"
proof -
  have l: "Load scenario_chain 0 (construct_obj scenario_chain 100)
     = Inr (\<lparr>hit_level = ''MainMemory'', total_cycles = 101\<rparr>,
            Cache_obj \<lparr>sets = [[\<lparr>valid = True, dirty = False, tag = 0\<rparr>]], policy = [[0]],
                       hits = 0, misses = 1, evictions = 0\<rparr> (MainMemory_obj 100))"
    by code_simp
  have s: "Store scenario_chain 0 (construct_obj scenario_chain 100)
     = Inr (\<lparr>hit_level = ''MainMemory'', total_cycles = 101\<rparr>,
            Cache_obj \<lparr>sets = [[\<lparr>valid = True, dirty = True, tag = 0\<rparr>]], policy = [[0]],
                       hits = 0, misses = 1, evictions = 0\<rparr> (MainMemory_obj 100))"
    by code_simp
  from hit_level_names_a_level [THEN conjunct1, THEN mp, OF l]
       hit_level_names_a_level [THEN conjunct2, THEN mp, OF s] l s
  show ?thesis by simp
qed

section \<open>The frame of a \<open>Load\<close> that hits\<close>

text \<open>
  C10, as stated: a \<open>Load\<close> that hits at some level leaves the lines of every
  level as they were. For a \<open>Load\<close> issued to the top of a chain that hits at a lower
  level this fails: every level above missed and was filled. In the two-level chain,
  after \<open>Load(0)\<close> and \<open>Store(4)\<close>, a \<open>Load(0)\<close> misses at L1 and hits at L2; it
  replaces the dirty line of L1 (clearing its dirty bit) and writes it back into L2
  (setting a dirty bit there).
\<close>

theorem Load_hit_below_top_counterexample:
  "simulate (Load two_level_chain) (Store two_level_chain) [(kLoad, 0), (kStore, 4)]
     (construct_obj two_level_chain 100)
   = Inr ([\<lparr>hit_level = ''MainMemory'', total_cycles = 111\<rparr>, \<lparr>hit_level = ''MainMemory'', total_cycles = 111\<rparr>],
       Cache_obj \<lparr>sets = [[\<lparr>valid = True, dirty = True, tag = 1\<rparr>]], policy = [[0 :: nat]], hits = 0, misses = 2, evictions = 0\<rparr>
       (Cache_obj \<lparr>sets = [[\<lparr>valid = True, dirty = False, tag = 0\<rparr>, \<lparr>valid = True, dirty = False, tag = 1\<rparr>]],
                    policy = [[1 :: nat, 0]], hits = 0, misses = 2, evictions = 0\<rparr>
         (MainMemory_obj 100)))
   \<and> Load two_level_chain 0
       (Cache_obj \<lparr>sets = [[\<lparr>valid = True, dirty = True, tag = 1\<rparr>]], policy = [[0 :: nat]], hits = 0, misses = 2, evictions = 0\<rparr>
       (Cache_obj \<lparr>sets = [[\<lparr>valid = True, dirty = False, tag = 0\<rparr>, \<lparr>valid = True, dirty = False, tag = 1\<rparr>]],
                    policy = [[1 :: nat, 0]], hits = 0, misses = 2, evictions = 0\<rparr>
         (MainMemory_obj 100)))
     = Inr (\<lparr>hit_level = ''L2'', total_cycles = 11\<rparr>,
       Cache_obj \<lparr>sets = [[\<lparr>valid = True, dirty = False, tag = 0\<rparr>]], policy = [[0 :: nat]], hits = 0, misses = 3, evictions = 1\<rparr>
       (Cache_obj \<lparr>sets = [[\<lparr>valid = True, dirty = False, tag = 0\<rparr>, \<lparr>valid = True, dirty = True, tag = 1\<rparr>]],
                    policy = [[1 :: nat, 0]], hits = 2, misses = 2, evictions = 0\<rparr>
         (MainMemory_obj 100)))
   \<and> all_lines (Cache_obj
       \<lparr>sets = [[\<lparr>valid = True, dirty = False, tag = 0\<rparr>]], policy = [[0 :: nat]], hits = 0, misses = 3, evictions = 1\<rparr>
       (Cache_obj \<lparr>sets = [[\<lparr>valid = True, dirty = False, tag = 0\<rparr>, \<lparr>valid = True, dirty = True, tag = 1\<rparr>]],
                    policy = [[1 :: nat, 0]], hits = 2, misses = 2, evictions = 0\<rparr>
         (MainMemory_obj 100)))
     \<noteq> all_lines (Cache_obj
         \<lparr>sets = [[\<lparr>valid = True, dirty = True, tag = 1\<rparr>]], policy = [[0 :: nat]], hits = 0, misses = 2, evictions = 0\<rparr>
       (Cache_obj \<lparr>sets = [[\<lparr>valid = True, dirty = False, tag = 0\<rparr>, \<lparr>valid = True, dirty = False, tag = 1\<rparr>]],
                    policy = [[1 :: nat, 0]], hits = 0, misses = 2, evictions = 0\<rparr>
         (MainMemory_obj 100)))"
  by code_simp

text \<open>
  C10, amended: a \<open>Load\<close> that hits at the level it is issued to (the tag scan of the top
  level of the chain finds the block, or the chain is only the main memory) returns and
  leaves every line of every level of the chain as it was; the miss and eviction
  counters of all levels, the hit counters and the policy states of all levels below,
  and the latency of the main memory are unchanged too. So of the whole object only
  the hit counter and the policy state of the hitting level can change. This is the
  \<open>Load\<close> call of the level where the access hits; the levels above it are filled by
  their own miss handling after the call has returned.
\<close>

theorem Load_hit_at_top_changes_no_line:
  assumes "hits_at_top H addr st"
  shows "\<exists>r st'. Load H addr st = Inr (r, st')
           \<and> all_lines st' = all_lines st
           \<and> miss_counts st' = miss_counts st \<and> eviction_counts st' = eviction_counts st
           \<and> tl (hit_counts st') = tl (hit_counts st) \<and> tl (policies st') = tl (policies st)
           \<and> mm_latency st' = mm_latency st"
proof (cases H)
  case (MainMemory nm)
  with assms show ?thesis by (cases st) simp_all
next
  case (Cache P N)
  with assms obtain c n where st: "st = Cache_obj c n" by (cases st) simp_all
  with assms Cache obtain w where "divisors_ok P"
    and "tag_lookup (Ways P) (sets c ! unat (set_idx_of P addr)) (tag_of P addr) = Some w"
    by auto
  from Load_hit_top [OF this] show ?thesis by (simp add: Cache st)
qed

theorem Load_hit_at_top_changes_no_line_witness:
  "hits_at_top two_level_chain 0
       (Cache_obj \<lparr>sets = [[\<lparr>valid = True, dirty = False, tag = 0\<rparr>]], policy = [[0]], hits = 0, misses = 1, evictions = 0\<rparr>
       (Cache_obj \<lparr>sets = [[\<lparr>valid = True, dirty = False, tag = 0\<rparr>, \<lparr>valid = False, dirty = False, tag = 0\<rparr>]],
                    policy = [[0, 1]], hits = 0, misses = 1, evictions = 0\<rparr>
         (MainMemory_obj 100)))
   \<and> Load two_level_chain 0
       (Cache_obj \<lparr>sets = [[\<lparr>valid = True, dirty = False, tag = 0\<rparr>]], policy = [[0]], hits = 0, misses = 1, evictions = 0\<rparr>
       (Cache_obj \<lparr>sets = [[\<lparr>valid = True, dirty = False, tag = 0\<rparr>, \<lparr>valid = False, dirty = False, tag = 0\<rparr>]],
                    policy = [[0, 1]], hits = 0, misses = 1, evictions = 0\<rparr>
         (MainMemory_obj 100)))
     = Inr (\<lparr>hit_level = ''L1'', total_cycles = 1\<rparr>,
       Cache_obj \<lparr>sets = [[\<lparr>valid = True, dirty = False, tag = 0\<rparr>]], policy = [[0]], hits = 1, misses = 1, evictions = 0\<rparr>
       (Cache_obj \<lparr>sets = [[\<lparr>valid = True, dirty = False, tag = 0\<rparr>, \<lparr>valid = False, dirty = False, tag = 0\<rparr>]],
                    policy = [[0, 1]], hits = 0, misses = 1, evictions = 0\<rparr>
         (MainMemory_obj 100)))"
proof -
  have h: "hits_at_top two_level_chain 0
       (Cache_obj \<lparr>sets = [[\<lparr>valid = True, dirty = False, tag = 0\<rparr>]], policy = [[0]], hits = 0, misses = 1, evictions = 0\<rparr>
       (Cache_obj \<lparr>sets = [[\<lparr>valid = True, dirty = False, tag = 0\<rparr>, \<lparr>valid = False, dirty = False, tag = 0\<rparr>]],
                    policy = [[0, 1]], hits = 0, misses = 1, evictions = 0\<rparr>
         (MainMemory_obj 100)))"
    by code_simp
  have l: "Load two_level_chain 0
       (Cache_obj \<lparr>sets = [[\<lparr>valid = True, dirty = False, tag = 0\<rparr>]], policy = [[0]], hits = 0, misses = 1, evictions = 0\<rparr>
       (Cache_obj \<lparr>sets = [[\<lparr>valid = True, dirty = False, tag = 0\<rparr>, \<lparr>valid = False, dirty = False, tag = 0\<rparr>]],
                    policy = [[0, 1]], hits = 0, misses = 1, evictions = 0\<rparr>
         (MainMemory_obj 100)))
     = Inr (\<lparr>hit_level = ''L1'', total_cycles = 1\<rparr>,
       Cache_obj \<lparr>sets = [[\<lparr>valid = True, dirty = False, tag = 0\<rparr>]], policy = [[0]], hits = 1, misses = 1, evictions = 0\<rparr>
       (Cache_obj \<lparr>sets = [[\<lparr>valid = True, dirty = False, tag = 0\<rparr>, \<lparr>valid = False, dirty = False, tag = 0\<rparr>]],
                    policy = [[0, 1]], hits = 0, misses = 1, evictions = 0\<rparr>
         (MainMemory_obj 100)))"
    by code_simp
  from Load_hit_at_top_changes_no_line [OF h] h l show ?thesis by simp
qed

section \<open>Latency accumulation\<close>

lemma serving_level:
  "(Load H addr st = Inr (r, st') \<longrightarrow>
      hit_level r = level_names H ! serving_depth H addr st
      \<and> total_cycles r = sum_list (take (Suc (serving_depth H addr st)) (hit_latencies H @ [mm_latency st])))
   \<and> (Store H addr st = Inr (r, st') \<longrightarrow>
      hit_level r = level_names H ! serving_depth H addr st
      \<and> total_cycles r = sum_list (take (Suc (serving_depth H addr st)) (hit_latencies H @ [mm_latency st])))"
proof (induction H arbitrary: st r st')
  case (MainMemory nm)
  show ?case by (cases st) auto
next
  case (Cache P N)
  show ?case
  proof (cases st)
    case (MainMemory_obj lat)
    then show ?thesis by simp
  next
    case st: (Cache_obj c n)
    let ?found = "tag_lookup (Ways P) (sets c ! unat (set_idx_of P addr)) (tag_of P addr)"
    have IH: "Load N addr n = Inr (res, n1) \<Longrightarrow>
      hit_level res = level_names N ! serving_depth N addr n
      \<and> total_cycles res = sum_list (take (Suc (serving_depth N addr n)) (hit_latencies N @ [mm_latency n]))"
      for res n1
      using Cache.IH [of n res n1] by simp
    show ?thesis
    proof (intro conjI impI)
      assume "Load (Cache P N) addr st = Inr (r, st')"
      then obtain c' n' where "Cache_Load P (Load N) (Store N) addr (c, n) = Inr (r, c', n')"
        unfolding st Load_Cache_obj_Inr by blast
      then have "hit_level r = level_names (Cache P N) ! serving_depth (Cache P N) addr st
        \<and> total_cycles r = sum_list (take (Suc (serving_depth (Cache P N) addr st))
             (hit_latencies (Cache P N) @ [mm_latency st]))"
      proof (cases rule: Cache_Load_InrE)
        case (hit w)
        then show ?thesis by (simp add: st)
      next
        case (miss res n1)
        with IH [of res n1] show ?thesis by (simp add: st add.commute)
      qed
      then show "hit_level r = level_names (Cache P N) ! serving_depth (Cache P N) addr st"
        and "total_cycles r = sum_list (take (Suc (serving_depth (Cache P N) addr st))
             (hit_latencies (Cache P N) @ [mm_latency st]))"
        by blast+
    next
      assume "Store (Cache P N) addr st = Inr (r, st')"
      then obtain c' n' where "Cache_Store P (Load N) (Store N) addr (c, n) = Inr (r, c', n')"
        unfolding st Store_Cache_obj_Inr by blast
      then have "hit_level r = level_names (Cache P N) ! serving_depth (Cache P N) addr st
        \<and> total_cycles r = sum_list (take (Suc (serving_depth (Cache P N) addr st))
             (hit_latencies (Cache P N) @ [mm_latency st]))"
      proof (cases rule: Cache_Store_InrE)
        case (hit w)
        then show ?thesis by (simp add: st)
      next
        case (miss res n1 c2)
        with IH [of res n1] show ?thesis by (simp add: st add.commute)
      qed
      then show "hit_level r = level_names (Cache P N) ! serving_depth (Cache P N) addr st"
        and "total_cycles r = sum_list (take (Suc (serving_depth (Cache P N) addr st))
             (hit_latencies (Cache P N) @ [mm_latency st]))"
        by blast+
    qed
  qed
qed

lemma serving_depth_all_miss:
  "misses_everywhere H addr st \<Longrightarrow> serving_depth H addr st = length (hit_latencies H)"
  by (induction H addr st rule: misses_everywhere.induct) simp_all

lemma level_names_last: "level_names H ! length (hit_latencies H) = mm_name H"
  by (induction H) simp_all

text \<open>
  C4, as stated: an access that misses at all cache levels returns the sum of
  their hit latencies plus the latency of the main memory, and an access that hits at
  level \<open>Li\<close> returns exactly the hit latency of \<open>Li\<close>. The second half fails for an
  access that hits below the top: in the two-level chain, the third access misses at L1
  (hit latency 1) and hits at L2 (hit latency 10), and returns 11.
\<close>

theorem hit_below_top_latency_counterexample:
  "simulate (Load two_level_chain) (Store two_level_chain) [(kLoad, 0), (kLoad, 4), (kLoad, 0)]
     (construct_obj two_level_chain 100)
   = Inr ([\<lparr>hit_level = ''MainMemory'', total_cycles = 111\<rparr>, \<lparr>hit_level = ''MainMemory'', total_cycles = 111\<rparr>,
           \<lparr>hit_level = ''L2'', total_cycles = 11\<rparr>],
       Cache_obj \<lparr>sets = [[\<lparr>valid = True, dirty = False, tag = 0\<rparr>]], policy = [[0]], hits = 0, misses = 3, evictions = 0\<rparr>
       (Cache_obj \<lparr>sets = [[\<lparr>valid = True, dirty = False, tag = 0\<rparr>, \<lparr>valid = True, dirty = False, tag = 1\<rparr>]],
                    policy = [[0, 1]], hits = 1, misses = 2, evictions = 0\<rparr>
         (MainMemory_obj 100)))
   \<and> level_names two_level_chain = [''L1'', ''L2'', ''MainMemory'']
   \<and> hit_latencies two_level_chain = [1, 10]"
  by code_simp

text \<open>
  C4, amended: whenever \<open>Load\<close> or \<open>Store\<close> of the top of a chain returns, the access was
  served by the first level, from the top, whose tag scan finds the block (the main
  memory if none does); \<open>hit_level\<close> is the name of that level, and \<open>total_cycles\<close> is
  the sum, in 64-bit unsigned arithmetic, of the hit latencies of all levels from the top
  down to and including that level (the latency of the main memory, if it served). So
  an access that misses at every cache level returns the sum of all hit latencies plus the
  latency of the main memory, and an access that hits at \<open>Li\<close> returns the hit latencies
  of \<open>L1\<close> to \<open>Li\<close> added up: exactly that of \<open>Li\<close> only for the level the call was
  issued to.
\<close>

theorem latency_down_to_serving_level:
  "(Load H addr st = Inr (r, st') \<or> Store H addr st = Inr (r, st') \<longrightarrow>
      hit_level r = level_names H ! serving_depth H addr st
      \<and> total_cycles r = sum_list (take (Suc (serving_depth H addr st)) (hit_latencies H @ [mm_latency st]))
      \<and> (misses_everywhere H addr st \<longrightarrow>
           hit_level r = mm_name H \<and> total_cycles r = sum_list (hit_latencies H) + mm_latency st))"
proof (intro impI)
  assume a: "Load H addr st = Inr (r, st') \<or> Store H addr st = Inr (r, st')"
  with serving_level [of H addr st r st']
  have g: "hit_level r = level_names H ! serving_depth H addr st"
      "total_cycles r = sum_list (take (Suc (serving_depth H addr st)) (hit_latencies H @ [mm_latency st]))"
    by blast+
  have "hit_level r = mm_name H \<and> total_cycles r = sum_list (hit_latencies H) + mm_latency st"
    if "misses_everywhere H addr st"
    using g serving_depth_all_miss [OF that] by (simp add: level_names_last)
  with g show "hit_level r = level_names H ! serving_depth H addr st
      \<and> total_cycles r = sum_list (take (Suc (serving_depth H addr st)) (hit_latencies H @ [mm_latency st]))
      \<and> (misses_everywhere H addr st \<longrightarrow>
           hit_level r = mm_name H \<and> total_cycles r = sum_list (hit_latencies H) + mm_latency st)"
    by blast
qed


theorem latency_down_to_serving_level_witness:
  "Load two_level_chain 0 (construct_obj two_level_chain 100)
     = Inr (\<lparr>hit_level = ''MainMemory'', total_cycles = 111\<rparr>,
       Cache_obj \<lparr>sets = [[\<lparr>valid = True, dirty = False, tag = 0\<rparr>]], policy = [[0]], hits = 0, misses = 1, evictions = 0\<rparr>
       (Cache_obj \<lparr>sets = [[\<lparr>valid = True, dirty = False, tag = 0\<rparr>, \<lparr>valid = False, dirty = False, tag = 0\<rparr>]],
                    policy = [[0, 1]], hits = 0, misses = 1, evictions = 0\<rparr>
         (MainMemory_obj 100)))
   \<and> misses_everywhere two_level_chain 0 (construct_obj two_level_chain 100)
   \<and> serving_depth two_level_chain 0 (construct_obj two_level_chain 100) = 2
   \<and> mm_name two_level_chain = ''MainMemory''
   \<and> sum_list (hit_latencies two_level_chain) + mm_latency (construct_obj two_level_chain 100) = 111"
proof -
  have l: "Load two_level_chain 0 (construct_obj two_level_chain 100)
     = Inr (\<lparr>hit_level = ''MainMemory'', total_cycles = 111\<rparr>,
       Cache_obj \<lparr>sets = [[\<lparr>valid = True, dirty = False, tag = 0\<rparr>]], policy = [[0]], hits = 0, misses = 1, evictions = 0\<rparr>
       (Cache_obj \<lparr>sets = [[\<lparr>valid = True, dirty = False, tag = 0\<rparr>, \<lparr>valid = False, dirty = False, tag = 0\<rparr>]],
                    policy = [[0, 1]], hits = 0, misses = 1, evictions = 0\<rparr>
         (MainMemory_obj 100)))"
    by code_simp
  have m: "misses_everywhere two_level_chain 0 (construct_obj two_level_chain 100)"
    by code_simp
  have d: "serving_depth two_level_chain 0 (construct_obj two_level_chain 100) = 2"
    by code_simp
  have n: "mm_name two_level_chain = ''MainMemory''"
    by code_simp
  from latency_down_to_serving_level [THEN mp, OF disjI1, OF l] l m d n
  show ?thesis by simp
qed

section \<open>Cold miss, then hits\<close>

lemma set_idx_in_range: "Sets P \<noteq> 0 \<Longrightarrow> unat (set_idx_of P addr) < unat (Sets P)"
  by (simp add: set_idx_of_def unat_mod unat_gt_0)

lemma tag_lookup_replicate_invalid:
  "\<not> valid l \<Longrightarrow> tag_lookup W (replicate W l) t = None"
  by (simp add: tag_lookup_None)

lemma first_invalid_replicate:
  "\<not> valid l \<Longrightarrow> 0 < W \<Longrightarrow> first_invalid W (replicate W l) = Some 0"
  by (simp add: first_invalid_Some)

lemma Cache_init_set:
  "Sets P \<noteq> 0 \<Longrightarrow> sets (Cache_init P) ! unat (set_idx_of P addr)
     = replicate (Ways P) \<lparr>valid = False, dirty = False, tag = 0\<rparr>"
  using set_idx_in_range [of P addr] by (simp add: Cache_init_def)

lemma Cache_Load_cold:
  assumes "divisors_ok P" "0 < Ways P"
    and "next_Load addr n = Inr (res, n1)"
  shows "Cache_Load P next_Load next_Store addr (Cache_init P, n)
         = Inr (res\<lparr>total_cycles := total_cycles res + HitLatency P\<rparr>,
                install P (set_idx_of P addr) (tag_of P addr) 0 ((Cache_init P)\<lparr>misses := 1\<rparr>), n1)"
proof -
  from assms(1) have S: "Sets P \<noteq> 0" by (simp add: divisors_ok_def)
  have miss: "tag_lookup (Ways P) (sets (Cache_init P) ! unat (set_idx_of P addr)) (tag_of P addr) = None"
    by (simp add: Cache_init_set [OF S] tag_lookup_replicate_invalid)
  have m: "misses (Cache_init P) + 1 = 1" by (simp add: Cache_init_def)
  have "first_invalid (Ways P) (sets ((Cache_init P)\<lparr>misses := 1\<rparr>) ! unat (set_idx_of P addr)) = Some 0"
    using assms(2) by (simp add: Cache_init_set [OF S] first_invalid_replicate)
  then have "Fill P next_Store (set_idx_of P addr) (tag_of P addr) ((Cache_init P)\<lparr>misses := 1\<rparr>, n1)
      = Inr (install P (set_idx_of P addr) (tag_of P addr) 0 ((Cache_init P)\<lparr>misses := 1\<rparr>), n1)"
    by (rule Fill_first_invalid)
  with miss m assms(1,3) show ?thesis by (simp add: Cache_Load_def Let_def)
qed

lemma install_cold_lookup:
  assumes "Sets P \<noteq> 0" "0 < Ways P"
  shows "tag_lookup (Ways P)
           (sets (install P (set_idx_of P addr) (tag_of P addr) 0 ((Cache_init P)\<lparr>misses := 1\<rparr>))
              ! unat (set_idx_of P addr)) (tag_of P addr) = Some 0"
proof -
  have "unat (set_idx_of P addr) < length (sets (Cache_init P))"
    using set_idx_in_range [OF assms(1), of addr] by (simp add: Cache_init_def)
  then show ?thesis
    using assms(2) by (simp add: install_def Cache_init_set [OF assms(1)] tag_lookup_Some)
qed

lemma cold_Load:
  assumes "config_ok H"
  shows "\<exists>st1. Load H addr (construct_obj H lat)
            = Inr (\<lparr>hit_level = mm_name H, total_cycles = sum_list (hit_latencies H) + lat\<rparr>, st1)
         \<and> miss_counts st1 = replicate (length (hit_latencies H)) 1
         \<and> hit_counts st1 = replicate (length (hit_latencies H)) 0
         \<and> hits_at_top H addr st1"
  using assms
proof (induction H)
  case (MainMemory nm)
  show ?case by simp
next
  case (Cache P N)
  then have ok: "divisors_ok P" and W: "0 < Ways P" and "config_ok N" by simp_all
  with Cache.IH obtain n1 where n1:
    "Load N addr (construct_obj N lat)
       = Inr (\<lparr>hit_level = mm_name N, total_cycles = sum_list (hit_latencies N) + lat\<rparr>, n1)"
    "miss_counts n1 = replicate (length (hit_latencies N)) 1"
    "hit_counts n1 = replicate (length (hit_latencies N)) 0"
    by blast
  from ok have S: "Sets P \<noteq> 0" by (simp add: divisors_ok_def)
  let ?c1 = "install P (set_idx_of P addr) (tag_of P addr) 0 ((Cache_init P)\<lparr>misses := 1\<rparr>)"
  have "Load (Cache P N) addr (construct_obj (Cache P N) lat)
        = Inr (\<lparr>hit_level = mm_name (Cache P N),
                 total_cycles = sum_list (hit_latencies (Cache P N)) + lat\<rparr>, Cache_obj ?c1 n1)"
    using Cache_Load_cold [where next_Load = "Load N" and next_Store = "Store N", OF ok W n1(1)]
    by (simp add: add.commute add.left_commute)
  moreover have "misses ?c1 = 1" "hits ?c1 = 0" by (simp_all add: install_def Cache_init_def)
  moreover have "hits_at_top (Cache P N) addr (Cache_obj ?c1 n1)"
    using ok install_cold_lookup [OF S W, of addr] by simp
  ultimately show ?case using n1(2,3) by simp
qed

lemma hit_again:
  assumes "hits_at_top (Cache P N) addr st"
  shows "\<exists>st'. Load (Cache P N) addr st = Inr (\<lparr>hit_level = Name P, total_cycles = HitLatency P\<rparr>, st')
           \<and> hits_at_top (Cache P N) addr st'
           \<and> miss_counts st' = miss_counts st
           \<and> hit_counts st' = (hd (hit_counts st) + 1) # tl (hit_counts st)"
proof -
  from assms obtain c n where st: "st = Cache_obj c n" by (cases st) simp_all
  with assms obtain w where ok: "divisors_ok P"
    and w: "tag_lookup (Ways P) (sets c ! unat (set_idx_of P addr)) (tag_of P addr) = Some w"
    by auto
  from Load_hit_top [OF ok w] ok w show ?thesis by (simp add: st)
qed

lemma hits_repeat:
  assumes "hits_at_top (Cache P N) addr st"
  shows "\<exists>st'. simulate (Load (Cache P N)) (Store (Cache P N)) (replicate k (kLoad, addr)) st
              = Inr (replicate k \<lparr>hit_level = Name P, total_cycles = HitLatency P\<rparr>, st')
           \<and> miss_counts st' = miss_counts st
           \<and> hit_counts st' = (hd (hit_counts st) + of_nat k) # tl (hit_counts st)"
  using assms
proof (induction k arbitrary: st)
  case 0
  then obtain c n where "st = Cache_obj c n" by (cases st) simp_all
  then show ?case by simp
next
  case (Suc k)
  from hit_again [OF Suc.prems] obtain st1 where st1:
    "Load (Cache P N) addr st = Inr (\<lparr>hit_level = Name P, total_cycles = HitLatency P\<rparr>, st1)"
    "hits_at_top (Cache P N) addr st1" "miss_counts st1 = miss_counts st"
    "hit_counts st1 = (hd (hit_counts st) + 1) # tl (hit_counts st)"
    by blast
  from Suc.IH [OF st1(2)] obtain st' where st':
    "simulate (Load (Cache P N)) (Store (Cache P N)) (replicate k (kLoad, addr)) st1
       = Inr (replicate k \<lparr>hit_level = Name P, total_cycles = HitLatency P\<rparr>, st')"
    "miss_counts st' = miss_counts st1"
    "hit_counts st' = (hd (hit_counts st1) + of_nat k) # tl (hit_counts st1)"
    by blast
  from st1 st' show ?case by (simp add: add.assoc)
qed

text \<open>
  C5: in a chain with at least one cache level, just constructed (every line invalid), the
  first \<open>Load\<close> of any address misses at every cache level and is served by the main
  memory, and each of the \<open>k\<close> loads of the same address that follow at once hits at
  the top cache level. The chain is one whose divisors are not zero and whose sets
  have at least one way. The miss counters say that every level missed exactly once,
  the hit counters that all \<open>k\<close> hits were at the top level. The policy is arbitrary:
  it is never asked for a victim.
\<close>

theorem cold_miss_then_hit:
  assumes "config_ok (Cache P N)"
  shows "\<exists>st. simulate (Load (Cache P N)) (Store (Cache P N)) ((kLoad, addr) # replicate k (kLoad, addr))
                (construct_obj (Cache P N) lat)
            = Inr (\<lparr>hit_level = mm_name N, total_cycles = HitLatency P + sum_list (hit_latencies N) + lat\<rparr>
                     # replicate k \<lparr>hit_level = Name P, total_cycles = HitLatency P\<rparr>, st)
         \<and> miss_counts st = replicate (Suc (length (hit_latencies N))) 1
         \<and> hit_counts st = of_nat k # replicate (length (hit_latencies N)) 0"
proof -
  from cold_Load [OF assms, of addr lat] obtain st1 where st1:
    "Load (Cache P N) addr (construct_obj (Cache P N) lat)
       = Inr (\<lparr>hit_level = mm_name (Cache P N),
                total_cycles = sum_list (hit_latencies (Cache P N)) + lat\<rparr>, st1)"
    "miss_counts st1 = replicate (length (hit_latencies (Cache P N))) 1"
    "hit_counts st1 = replicate (length (hit_latencies (Cache P N))) 0"
    "hits_at_top (Cache P N) addr st1"
    by blast
  from hits_repeat [OF st1(4), of k] obtain st where st:
    "simulate (Load (Cache P N)) (Store (Cache P N)) (replicate k (kLoad, addr)) st1
       = Inr (replicate k \<lparr>hit_level = Name P, total_cycles = HitLatency P\<rparr>, st)"
    "miss_counts st = miss_counts st1"
    "hit_counts st = (hd (hit_counts st1) + of_nat k) # tl (hit_counts st1)"
    by blast
  from st1 st show ?thesis by simp
qed


theorem cold_miss_then_hit_witness:
  "config_ok (Cache (L1_params 1 1 4) (Cache (L2_params 1 2 4) (MainMemory ''MainMemory'')))
   \<and> map_sum id fst
        (simulate (Load (Cache (L1_params 1 1 4) (Cache (L2_params 1 2 4) (MainMemory ''MainMemory''))))
                  (Store (Cache (L1_params 1 1 4) (Cache (L2_params 1 2 4) (MainMemory ''MainMemory''))))
                  [(kLoad, 0), (kLoad, 0), (kLoad, 0)]
                  (construct_obj (Cache (L1_params 1 1 4) (Cache (L2_params 1 2 4) (MainMemory ''MainMemory''))) 100))
     = Inr [\<lparr>hit_level = ''MainMemory'', total_cycles = 111\<rparr>,
            \<lparr>hit_level = ''L1'', total_cycles = 1\<rparr>, \<lparr>hit_level = ''L1'', total_cycles = 1\<rparr>]"
proof -
  have cfg: "config_ok (Cache (L1_params 1 1 4) (Cache (L2_params 1 2 4) (MainMemory ''MainMemory'')))"
    by (simp add: L1_params_def L2_params_def divisors_ok_def)
  from cold_miss_then_hit [OF cfg, of 0 2 100] obtain st where
    "simulate (Load (Cache (L1_params 1 1 4) (Cache (L2_params 1 2 4) (MainMemory ''MainMemory''))))
              (Store (Cache (L1_params 1 1 4) (Cache (L2_params 1 2 4) (MainMemory ''MainMemory''))))
              ((kLoad, 0) # replicate 2 (kLoad, 0))
              (construct_obj (Cache (L1_params 1 1 4) (Cache (L2_params 1 2 4) (MainMemory ''MainMemory''))) 100)
     = Inr (\<lparr>hit_level = mm_name (Cache (L2_params 1 2 4) (MainMemory ''MainMemory'')),
              total_cycles = HitLatency (L1_params 1 1 4)
                 + sum_list (hit_latencies (Cache (L2_params 1 2 4) (MainMemory ''MainMemory''))) + 100\<rparr>
             # replicate 2 \<lparr>hit_level = Name (L1_params 1 1 4), total_cycles = HitLatency (L1_params 1 1 4)\<rparr>, st)"
    by blast
  then have "map_sum id fst
        (simulate (Load (Cache (L1_params 1 1 4) (Cache (L2_params 1 2 4) (MainMemory ''MainMemory''))))
                  (Store (Cache (L1_params 1 1 4) (Cache (L2_params 1 2 4) (MainMemory ''MainMemory''))))
                  [(kLoad, 0), (kLoad, 0), (kLoad, 0)]
                  (construct_obj (Cache (L1_params 1 1 4) (Cache (L2_params 1 2 4) (MainMemory ''MainMemory''))) 100))
     = Inr [\<lparr>hit_level = ''MainMemory'', total_cycles = 111\<rparr>,
            \<lparr>hit_level = ''L1'', total_cycles = 1\<rparr>, \<lparr>hit_level = ''L1'', total_cycles = 1\<rparr>]"
    by (simp add: numeral_2_eq_2 L1_params_def L2_params_def)
  with cfg show ?thesis by blast
qed

section \<open>Write-allocate on a \<open>Store\<close> miss\<close>

lemma dims_ok_set:
  assumes "dims_ok P c" "Sets P \<noteq> 0"
  shows "unat (set_idx_of P addr) < length (sets c)"
    and "length (sets c ! unat (set_idx_of P addr)) = Ways P"
proof -
  show a: "unat (set_idx_of P addr) < length (sets c)"
    using assms set_idx_in_range [of P addr] by (simp add: dims_ok_def)
  from assms(1) have "\<forall>i<length (sets c). length (sets c ! i) = Ways P"
    by (simp add: dims_ok_def list_all_length)
  with a show "length (sets c ! unat (set_idx_of P addr)) = Ways P" by blast
qed

lemma divisors_ok_Sets: "divisors_ok P \<Longrightarrow> Sets P \<noteq> 0"
  by (simp add: divisors_ok_def)

lemma list_all_update: "list_all Q xs \<Longrightarrow> Q x \<Longrightarrow> list_all Q (xs[i := x])"
  by (auto simp: list_all_iff dest: subsetD [OF set_update_subset_insert])

lemma dims_ok_update:
  assumes "dims_ok P c" "sets c' = (sets c)[i := ls]" "length ls = Ways P"
  shows "dims_ok P c'"
  using assms by (simp add: dims_ok_def list_all_update)

lemma dims_ok_same: "dims_ok P c \<Longrightarrow> sets c' = sets c \<Longrightarrow> dims_ok P c'"
  by (simp add: dims_ok_def)

text \<open>What \<open>Fill\<close> does to the lines, the counters and the next layer, in one statement.\<close>

lemma Fill_Inr_summary:
  assumes "Fill P next_Store set_idx t (c, n) = Inr (c', n')"
  shows "\<exists>v<Ways P.
           sets c' = (sets c)[unat set_idx :=
              (sets c ! unat set_idx)[v := \<lparr>valid = True, dirty = False, tag = t\<rparr>]]
         \<and> hits c' = hits c \<and> misses c' = misses c
         \<and> (first_invalid (Ways P) (sets c ! unat set_idx) = Some v \<and> n' = n
               \<and> evictions c' = evictions c
             \<or> first_invalid (Ways P) (sets c ! unat set_idx) = None
               \<and> fst (GetVictim (ReplacePolicy P) (unat set_idx) (policy c)) = v
               \<and> (\<not> (valid (sets c ! unat set_idx ! v) \<and> dirty (sets c ! unat set_idx ! v))
                     \<and> n' = n \<and> evictions c' = evictions c
                   \<or> valid (sets c ! unat set_idx ! v) \<and> dirty (sets c ! unat set_idx ! v)
                     \<and> evictions c' = evictions c + 1
                     \<and> (\<exists>res. next_Store (evict_addr P (tag (sets c ! unat set_idx ! v)) set_idx) n
                                = Inr (res, n'))))"
  using assms
proof (cases rule: Fill_InrE)
  case (free w)
  then show ?thesis by (auto simp: install_def first_invalid_Some)
next
  case (clean v pol)
  then show ?thesis by (auto simp: install_def)
next
  case (writeback v pol res)
  then show ?thesis by (auto simp: install_def)
qed

lemma tag_lookup_dirty_update:
  "tag_lookup W (ls[w := (ls ! w)\<lparr>dirty := True\<rparr>]) t = tag_lookup W ls t"
proof -
  have "(\<lambda>i. valid (ls[w := (ls ! w)\<lparr>dirty := True\<rparr>] ! i) \<and> tag (ls[w := (ls ! w)\<lparr>dirty := True\<rparr>] ! i) = t)
        = (\<lambda>i. valid (ls ! i) \<and> tag (ls ! i) = t)"
    by (rule ext) (cases "w < length ls", auto simp: nth_list_update list_update_beyond)
  then show ?thesis by (simp add: tag_lookup_def)
qed

lemma tag_lookup_installed:
  assumes "v < W" "length ls = W"
  shows "\<exists>w<W. tag_lookup W (ls[v := \<lparr>valid = True, dirty = False, tag = t\<rparr>]) t = Some w"
proof (cases "tag_lookup W (ls[v := \<lparr>valid = True, dirty = False, tag = t\<rparr>]) t")
  case None
  with assms show ?thesis by (auto simp: tag_lookup_None)
next
  case (Some w)
  then have "w < W" by (simp add: tag_lookup_Some)
  with Some show ?thesis by blast
qed

lemma mark_dirty_line:
  assumes "unat set_idx < length (sets c)"
    and "tag_lookup (Ways P) (sets c ! unat set_idx) t = Some w"
    and "length (sets c ! unat set_idx) = Ways P"
  shows "tag_lookup (Ways P) (sets (mark_dirty P set_idx t c) ! unat set_idx) t = Some w"
    and "valid (sets (mark_dirty P set_idx t c) ! unat set_idx ! w)"
    and "dirty (sets (mark_dirty P set_idx t c) ! unat set_idx ! w)"
    and "tag (sets (mark_dirty P set_idx t c) ! unat set_idx ! w) = t"
    and "hits (mark_dirty P set_idx t c) = hits c"
    and "misses (mark_dirty P set_idx t c) = misses c"
    and "evictions (mark_dirty P set_idx t c) = evictions c"
proof -
  from assms(2) have w: "w < Ways P" "valid (sets c ! unat set_idx ! w)" "tag (sets c ! unat set_idx ! w) = t"
    by (simp_all add: tag_lookup_Some)
  have s: "sets (mark_dirty P set_idx t c) ! unat set_idx
        = (sets c ! unat set_idx)[w := (sets c ! unat set_idx ! w)\<lparr>dirty := True\<rparr>]"
    using assms(1,2) by (simp add: mark_dirty_def)
  show "tag_lookup (Ways P) (sets (mark_dirty P set_idx t c) ! unat set_idx) t = Some w"
    using assms(2) by (simp add: s tag_lookup_dirty_update)
  show "valid (sets (mark_dirty P set_idx t c) ! unat set_idx ! w)"
    "dirty (sets (mark_dirty P set_idx t c) ! unat set_idx ! w)"
    "tag (sets (mark_dirty P set_idx t c) ! unat set_idx ! w) = t"
    using w assms(3) by (simp_all add: s)
  show "hits (mark_dirty P set_idx t c) = hits c" "misses (mark_dirty P set_idx t c) = misses c"
    "evictions (mark_dirty P set_idx t c) = evictions c"
    using assms(2) by (simp_all add: mark_dirty_def)
qed

text \<open>What a \<open>Store\<close> that misses and returns has done.\<close>

lemma Store_miss_outcome:
  assumes dims: "dims_ok P c"
    and miss: "tag_lookup (Ways P) (sets c ! unat (set_idx_of P addr)) (tag_of P addr) = None"
    and ret: "Cache_Store P next_Load next_Store addr (c, n) = Inr (r, c', n')"
  shows "\<exists>res n1. next_Load addr n = Inr (res, n1)
           \<and> hit_level r = hit_level res
           \<and> total_cycles r = total_cycles res + HitLatency P
           \<and> (n' = n1
              \<or> (\<exists>v res'. v < Ways P \<and> valid (sets c ! unat (set_idx_of P addr) ! v)
                    \<and> dirty (sets c ! unat (set_idx_of P addr) ! v)
                    \<and> next_Store (evict_addr P (tag (sets c ! unat (set_idx_of P addr) ! v)) (set_idx_of P addr)) n1
                        = Inr (res', n')))
           \<and> (\<exists>w<Ways P. tag_lookup (Ways P) (sets c' ! unat (set_idx_of P addr)) (tag_of P addr) = Some w
                    \<and> valid (sets c' ! unat (set_idx_of P addr) ! w)
                    \<and> dirty (sets c' ! unat (set_idx_of P addr) ! w)
                    \<and> tag (sets c' ! unat (set_idx_of P addr) ! w) = tag_of P addr)
           \<and> misses c' = misses c + 1 \<and> hits c' = hits c"
  using ret
proof (cases rule: Cache_Store_InrE)
  case (hit w)
  with miss show ?thesis by simp
next
  case (miss res n1 c2)
  let ?s = "set_idx_of P addr" and ?t = "tag_of P addr"
  let ?ls = "sets c ! unat ?s"
  from miss(1) have S: "Sets P \<noteq> 0" by (rule divisors_ok_Sets)
  note d = dims_ok_set [OF dims S, of addr]
  from Fill_Inr_summary [OF miss(5)] obtain v where v: "v < Ways P"
    and sets2: "sets c2 = (sets c)[unat ?s := ?ls[v := \<lparr>valid = True, dirty = False, tag = ?t\<rparr>]]"
    and cnt: "hits c2 = hits c" "misses c2 = misses c + 1"
    and nxt: "n' = n1 \<or> (valid (?ls ! v) \<and> dirty (?ls ! v)
               \<and> (\<exists>res'. next_Store (evict_addr P (tag (?ls ! v)) ?s) n1 = Inr (res', n')))"
    by auto
  have len2: "unat ?s < length (sets c2)" using d(1) by (simp add: sets2)
  have set2: "sets c2 ! unat ?s = ?ls[v := \<lparr>valid = True, dirty = False, tag = ?t\<rparr>]"
    using d(1) by (simp add: sets2)
  from tag_lookup_installed [OF v d(2), of ?t] obtain w where w: "w < Ways P"
    and lk: "tag_lookup (Ways P) (sets c2 ! unat ?s) ?t = Some w"
    by (auto simp: set2)
  have l2: "length (sets c2 ! unat ?s) = Ways P" using d(2) by (simp add: set2)
  note md = mark_dirty_line [OF len2 lk l2]
  have "\<exists>w<Ways P. tag_lookup (Ways P) (sets c' ! unat ?s) ?t = Some w
          \<and> valid (sets c' ! unat ?s ! w) \<and> dirty (sets c' ! unat ?s ! w)
          \<and> tag (sets c' ! unat ?s ! w) = ?t"
    using w md(1-4) unfolding miss(6) by blast
  moreover have "misses c' = misses c + 1" "hits c' = hits c"
    using md(5,6) cnt by (simp_all add: miss(6))
  moreover have "n' = n1 \<or> (\<exists>v res'. v < Ways P \<and> valid (?ls ! v) \<and> dirty (?ls ! v)
                    \<and> next_Store (evict_addr P (tag (?ls ! v)) ?s) n1 = Inr (res', n'))"
    using nxt v by blast
  ultimately show ?thesis using miss(3,4) by simp
qed

text \<open>\<open>Fill\<close>, and with it a \<open>Load\<close> or a \<open>Store\<close>, returns when the next layer does and
  the victim is a way of the set.\<close>

lemma Fill_returns:
  assumes "victim_ok P c set_idx"
    and "\<forall>ea. \<exists>res n'. next_Store ea n = Inr (res, n')"
  shows "\<exists>c' n'. Fill P next_Store set_idx t (c, n) = Inr (c', n')"
proof (cases "first_invalid (Ways P) (sets c ! unat set_idx)")
  case (Some w)
  then show ?thesis by (simp add: Fill_def)
next
  case None
  obtain v pol where g: "GetVictim (ReplacePolicy P) (unat set_idx) (policy c) = (v, pol)"
    by (cases "GetVictim (ReplacePolicy P) (unat set_idx) (policy c)")
  with assms(1) None have v: "v < Ways P" by (simp add: victim_ok_def)
  show ?thesis
  proof (cases "valid (sets c ! unat set_idx ! v) \<and> dirty (sets c ! unat set_idx ! v)")
    case False
    with None g v show ?thesis by (auto simp: Fill_def Let_def)
  next
    case True
    from assms(2) obtain res n' where
      "next_Store (evict_addr P (tag (sets c ! unat set_idx ! v)) set_idx) n = Inr (res, n')"
      by blast
    with True None g v show ?thesis by (simp add: Fill_def Let_def)
  qed
qed

lemma victim_ok_misses: "victim_ok P (c\<lparr>misses := k\<rparr>) set_idx = victim_ok P c set_idx"
  by (simp add: victim_ok_def)

lemma Cache_Load_returns:
  assumes "divisors_ok P" and "next_Load addr n = Inr (res, m)"
    and "victim_ok P c (set_idx_of P addr)"
    and "\<forall>ea. \<exists>res' n'. next_Store ea m = Inr (res', n')"
  shows "\<exists>r c' n'. Cache_Load P next_Load next_Store addr (c, n) = Inr (r, c', n')"
proof (cases "tag_lookup (Ways P) (sets c ! unat (set_idx_of P addr)) (tag_of P addr)")
  case (Some w)
  with assms(1) show ?thesis by (simp add: Cache_Load_def Let_def)
next
  case None
  from Fill_returns [where next_Store = next_Store and n = m and P = P
        and c = "c\<lparr>misses := misses c + 1\<rparr>" and set_idx = "set_idx_of P addr" and t = "tag_of P addr"]
    assms(3,4)
  obtain c' n' where "Fill P next_Store (set_idx_of P addr) (tag_of P addr) (c\<lparr>misses := misses c + 1\<rparr>, m)
      = Inr (c', n')"
    by (auto simp: victim_ok_misses)
  with None assms(1,2) show ?thesis by (simp add: Cache_Load_def Let_def)
qed

lemma Cache_Store_returns:
  assumes "divisors_ok P" and "next_Load addr n = Inr (res, m)"
    and "victim_ok P c (set_idx_of P addr)"
    and "\<forall>ea. \<exists>res' n'. next_Store ea m = Inr (res', n')"
  shows "\<exists>r c' n'. Cache_Store P next_Load next_Store addr (c, n) = Inr (r, c', n')"
proof (cases "tag_lookup (Ways P) (sets c ! unat (set_idx_of P addr)) (tag_of P addr)")
  case (Some w)
  with assms(1) show ?thesis by (simp add: Cache_Store_def Let_def)
next
  case None
  from Fill_returns [where next_Store = next_Store and n = m and P = P
        and c = "c\<lparr>misses := misses c + 1\<rparr>" and set_idx = "set_idx_of P addr" and t = "tag_of P addr"]
    assms(3,4)
  obtain c' n' where "Fill P next_Store (set_idx_of P addr) (tag_of P addr) (c\<lparr>misses := misses c + 1\<rparr>, m)
      = Inr (c', n')"
    by (auto simp: victim_ok_misses)
  with None assms(1,2) show ?thesis by (simp add: Cache_Store_def Let_def)
qed

text \<open>
  C6: a \<open>Store\<close> that misses at a level returns, whenever the next layer's \<open>Load\<close> of the
  address returns, the next layer's \<open>Store\<close> returns from the state it left, and a way
  of the set is invalid or the policy answers a way below \<open>Ways\<close>: so also when the set is
  full and the victim is dirty. Its result is that of the next layer's \<open>Load\<close> with
  \<open>HitLatency\<close> added to the cycles. The only \<open>Store\<close> the next layer can have received
  is the write-back of a valid, dirty victim, at the victim's address, after the \<open>Load\<close>.
  Afterwards the tag scan finds the tag of the address in a line that is valid and
  dirty; the miss counter went up by one and the hit counter is unchanged.
\<close>

theorem Store_miss_write_allocates:
  assumes dims: "dims_ok P c" and div: "divisors_ok P"
    and miss: "tag_lookup (Ways P) (sets c ! unat (set_idx_of P addr)) (tag_of P addr) = None"
    and nL: "next_Load addr n = Inr (res, n1)"
    and vic: "victim_ok P c (set_idx_of P addr)"
    and nS: "\<forall>ea. \<exists>res' n2. next_Store ea n1 = Inr (res', n2)"
  shows "\<exists>c' n'. Cache_Store P next_Load next_Store addr (c, n)
             = Inr (res\<lparr>total_cycles := total_cycles res + HitLatency P\<rparr>, c', n')
           \<and> (n' = n1
              \<or> (\<exists>v res'. v < Ways P \<and> valid (sets c ! unat (set_idx_of P addr) ! v)
                    \<and> dirty (sets c ! unat (set_idx_of P addr) ! v)
                    \<and> next_Store (evict_addr P (tag (sets c ! unat (set_idx_of P addr) ! v)) (set_idx_of P addr)) n1
                        = Inr (res', n')))
           \<and> (\<exists>w<Ways P. tag_lookup (Ways P) (sets c' ! unat (set_idx_of P addr)) (tag_of P addr) = Some w
                    \<and> valid (sets c' ! unat (set_idx_of P addr) ! w)
                    \<and> dirty (sets c' ! unat (set_idx_of P addr) ! w)
                    \<and> tag (sets c' ! unat (set_idx_of P addr) ! w) = tag_of P addr)
           \<and> misses c' = misses c + 1 \<and> hits c' = hits c"
proof -
  from Cache_Store_returns [where next_Load = next_Load and next_Store = next_Store, OF div nL vic nS]
  obtain r c' n' where
    ret: "Cache_Store P next_Load next_Store addr (c, n) = Inr (r, c', n')" by blast
  from ret miss nL have r: "r = res\<lparr>total_cycles := total_cycles res + HitLatency P\<rparr>"
    by (cases rule: Cache_Store_InrE) simp_all
  from Store_miss_outcome [OF dims miss ret] nL
  have rest: "(n' = n1
              \<or> (\<exists>v res'. v < Ways P \<and> valid (sets c ! unat (set_idx_of P addr) ! v)
                    \<and> dirty (sets c ! unat (set_idx_of P addr) ! v)
                    \<and> next_Store (evict_addr P (tag (sets c ! unat (set_idx_of P addr) ! v)) (set_idx_of P addr)) n1
                        = Inr (res', n')))
           \<and> (\<exists>w<Ways P. tag_lookup (Ways P) (sets c' ! unat (set_idx_of P addr)) (tag_of P addr) = Some w
                    \<and> valid (sets c' ! unat (set_idx_of P addr) ! w)
                    \<and> dirty (sets c' ! unat (set_idx_of P addr) ! w)
                    \<and> tag (sets c' ! unat (set_idx_of P addr) ! w) = tag_of P addr)
           \<and> misses c' = misses c + 1 \<and> hits c' = hits c"
    by auto
  with ret r show ?thesis by blast
qed

theorem Store_miss_write_allocates_witness:
  "dims_ok (L1_params 1 2 4) (\<lparr>sets = [[\<lparr>valid = True, dirty = True, tag = 1\<rparr>, \<lparr>valid = True, dirty = True, tag = 2\<rparr>]],
          policy = [[1 :: nat, 0]], hits = 0, misses = 2, evictions = 0\<rparr>) \<and> divisors_ok (L1_params 1 2 4)
   \<and> tag_lookup (Ways (L1_params 1 2 4)) (sets (\<lparr>sets = [[\<lparr>valid = True, dirty = True, tag = 1\<rparr>, \<lparr>valid = True, dirty = True, tag = 2\<rparr>]],
          policy = [[1 :: nat, 0]], hits = 0, misses = 2, evictions = 0\<rparr>) ! unat (set_idx_of (L1_params 1 2 4) 0)) (tag_of (L1_params 1 2 4) 0) = None
   \<and> first_invalid (Ways (L1_params 1 2 4)) (sets (\<lparr>sets = [[\<lparr>valid = True, dirty = True, tag = 1\<rparr>, \<lparr>valid = True, dirty = True, tag = 2\<rparr>]],
          policy = [[1 :: nat, 0]], hits = 0, misses = 2, evictions = 0\<rparr>) ! unat (set_idx_of (L1_params 1 2 4) 0)) = None
   \<and> (Probe_Load ''MainMemory'' 100) 0 [(kLoad, 5), (kLoad, 8)] = Inr (\<lparr>hit_level = ''MainMemory'', total_cycles = 100\<rparr>, [(kLoad, 5), (kLoad, 8), (kLoad, 0)])
   \<and> victim_ok (L1_params 1 2 4) (\<lparr>sets = [[\<lparr>valid = True, dirty = True, tag = 1\<rparr>, \<lparr>valid = True, dirty = True, tag = 2\<rparr>]],
          policy = [[1 :: nat, 0]], hits = 0, misses = 2, evictions = 0\<rparr>) (set_idx_of (L1_params 1 2 4) 0)
   \<and> (\<forall>ea. \<exists>res' n2. (Probe_Store ''MainMemory'' 100) ea [(kLoad, 5), (kLoad, 8), (kLoad, 0)] = Inr (res', n2))
   \<and> (\<exists>c' n'. Cache_Store (L1_params 1 2 4) (Probe_Load ''MainMemory'' 100) (Probe_Store ''MainMemory'' 100) 0 (\<lparr>sets = [[\<lparr>valid = True, dirty = True, tag = 1\<rparr>, \<lparr>valid = True, dirty = True, tag = 2\<rparr>]],
          policy = [[1 :: nat, 0]], hits = 0, misses = 2, evictions = 0\<rparr>, [(kLoad, 5), (kLoad, 8)])
             = Inr (\<lparr>hit_level = ''MainMemory'', total_cycles = 100\<rparr>\<lparr>total_cycles := total_cycles \<lparr>hit_level = ''MainMemory'', total_cycles = 100\<rparr> + HitLatency (L1_params 1 2 4)\<rparr>, c', n')
           \<and> (n' = [(kLoad, 5), (kLoad, 8), (kLoad, 0)]
              \<or> (\<exists>v res'. v < Ways (L1_params 1 2 4) \<and> valid (sets (\<lparr>sets = [[\<lparr>valid = True, dirty = True, tag = 1\<rparr>, \<lparr>valid = True, dirty = True, tag = 2\<rparr>]],
          policy = [[1 :: nat, 0]], hits = 0, misses = 2, evictions = 0\<rparr>) ! unat (set_idx_of (L1_params 1 2 4) 0) ! v)
                    \<and> dirty (sets (\<lparr>sets = [[\<lparr>valid = True, dirty = True, tag = 1\<rparr>, \<lparr>valid = True, dirty = True, tag = 2\<rparr>]],
          policy = [[1 :: nat, 0]], hits = 0, misses = 2, evictions = 0\<rparr>) ! unat (set_idx_of (L1_params 1 2 4) 0) ! v)
                    \<and> (Probe_Store ''MainMemory'' 100) (evict_addr (L1_params 1 2 4) (tag (sets (\<lparr>sets = [[\<lparr>valid = True, dirty = True, tag = 1\<rparr>, \<lparr>valid = True, dirty = True, tag = 2\<rparr>]],
          policy = [[1 :: nat, 0]], hits = 0, misses = 2, evictions = 0\<rparr>) ! unat (set_idx_of (L1_params 1 2 4) 0) ! v)) (set_idx_of (L1_params 1 2 4) 0)) [(kLoad, 5), (kLoad, 8), (kLoad, 0)]
                        = Inr (res', n')))
           \<and> (\<exists>w<Ways (L1_params 1 2 4). tag_lookup (Ways (L1_params 1 2 4)) (sets c' ! unat (set_idx_of (L1_params 1 2 4) 0)) (tag_of (L1_params 1 2 4) 0) = Some w
                    \<and> valid (sets c' ! unat (set_idx_of (L1_params 1 2 4) 0) ! w)
                    \<and> dirty (sets c' ! unat (set_idx_of (L1_params 1 2 4) 0) ! w)
                    \<and> tag (sets c' ! unat (set_idx_of (L1_params 1 2 4) 0) ! w) = tag_of (L1_params 1 2 4) 0)
           \<and> misses c' = misses (\<lparr>sets = [[\<lparr>valid = True, dirty = True, tag = 1\<rparr>, \<lparr>valid = True, dirty = True, tag = 2\<rparr>]],
          policy = [[1 :: nat, 0]], hits = 0, misses = 2, evictions = 0\<rparr>) + 1 \<and> hits c' = hits (\<lparr>sets = [[\<lparr>valid = True, dirty = True, tag = 1\<rparr>, \<lparr>valid = True, dirty = True, tag = 2\<rparr>]],
          policy = [[1 :: nat, 0]], hits = 0, misses = 2, evictions = 0\<rparr>))
   \<and> Cache_Store (L1_params 1 2 4) (Probe_Load ''MainMemory'' 100) (Probe_Store ''MainMemory'' 100) 0 (\<lparr>sets = [[\<lparr>valid = True, dirty = True, tag = 1\<rparr>, \<lparr>valid = True, dirty = True, tag = 2\<rparr>]],
          policy = [[1 :: nat, 0]], hits = 0, misses = 2, evictions = 0\<rparr>, [(kLoad, 5), (kLoad, 8)])
       = Inr (\<lparr>hit_level = ''MainMemory'', total_cycles = 101\<rparr>, \<lparr>sets = [[\<lparr>valid = True, dirty = True, tag = 0\<rparr>, \<lparr>valid = True, dirty = True, tag = 2\<rparr>]],
          policy = [[0 :: nat, 1]], hits = 0, misses = 3, evictions = 1\<rparr>, [(kLoad, 5), (kLoad, 8), (kLoad, 0), (kStore, 4)])"
proof -
  have d: "dims_ok (L1_params 1 2 4) (\<lparr>sets = [[\<lparr>valid = True, dirty = True, tag = 1\<rparr>, \<lparr>valid = True, dirty = True, tag = 2\<rparr>]],
          policy = [[1 :: nat, 0]], hits = 0, misses = 2, evictions = 0\<rparr>)" and v: "divisors_ok (L1_params 1 2 4)"
    and m: "tag_lookup (Ways (L1_params 1 2 4)) (sets (\<lparr>sets = [[\<lparr>valid = True, dirty = True, tag = 1\<rparr>, \<lparr>valid = True, dirty = True, tag = 2\<rparr>]],
          policy = [[1 :: nat, 0]], hits = 0, misses = 2, evictions = 0\<rparr>) ! unat (set_idx_of (L1_params 1 2 4) 0)) (tag_of (L1_params 1 2 4) 0) = None"
    and f: "first_invalid (Ways (L1_params 1 2 4)) (sets (\<lparr>sets = [[\<lparr>valid = True, dirty = True, tag = 1\<rparr>, \<lparr>valid = True, dirty = True, tag = 2\<rparr>]],
          policy = [[1 :: nat, 0]], hits = 0, misses = 2, evictions = 0\<rparr>) ! unat (set_idx_of (L1_params 1 2 4) 0)) = None"
    and g: "victim_ok (L1_params 1 2 4) (\<lparr>sets = [[\<lparr>valid = True, dirty = True, tag = 1\<rparr>, \<lparr>valid = True, dirty = True, tag = 2\<rparr>]],
          policy = [[1 :: nat, 0]], hits = 0, misses = 2, evictions = 0\<rparr>) (set_idx_of (L1_params 1 2 4) 0)"
    by code_simp+
  have l: "(Probe_Load ''MainMemory'' 100) 0 [(kLoad, 5), (kLoad, 8)] = Inr (\<lparr>hit_level = ''MainMemory'', total_cycles = 100\<rparr>, [(kLoad, 5), (kLoad, 8), (kLoad, 0)])"
    by (simp add: Probe_Load_def)
  have st: "\<forall>ea. \<exists>res' n2. (Probe_Store ''MainMemory'' 100) ea [(kLoad, 5), (kLoad, 8), (kLoad, 0)] = Inr (res', n2)"
    by (simp add: Probe_Store_def)
  have s: "Cache_Store (L1_params 1 2 4) (Probe_Load ''MainMemory'' 100) (Probe_Store ''MainMemory'' 100) 0 (\<lparr>sets = [[\<lparr>valid = True, dirty = True, tag = 1\<rparr>, \<lparr>valid = True, dirty = True, tag = 2\<rparr>]],
          policy = [[1 :: nat, 0]], hits = 0, misses = 2, evictions = 0\<rparr>, [(kLoad, 5), (kLoad, 8)])
       = Inr (\<lparr>hit_level = ''MainMemory'', total_cycles = 101\<rparr>, \<lparr>sets = [[\<lparr>valid = True, dirty = True, tag = 0\<rparr>, \<lparr>valid = True, dirty = True, tag = 2\<rparr>]],
          policy = [[0 :: nat, 1]], hits = 0, misses = 3, evictions = 1\<rparr>, [(kLoad, 5), (kLoad, 8), (kLoad, 0), (kStore, 4)])"
    by code_simp
  from Store_miss_write_allocates [where next_Load = "(Probe_Load ''MainMemory'' 100)" and next_Store = "(Probe_Store ''MainMemory'' 100)", OF d v m l g st]
  have e: "(\<exists>c' n'. Cache_Store (L1_params 1 2 4) (Probe_Load ''MainMemory'' 100) (Probe_Store ''MainMemory'' 100) 0 (\<lparr>sets = [[\<lparr>valid = True, dirty = True, tag = 1\<rparr>, \<lparr>valid = True, dirty = True, tag = 2\<rparr>]],
          policy = [[1 :: nat, 0]], hits = 0, misses = 2, evictions = 0\<rparr>, [(kLoad, 5), (kLoad, 8)])
             = Inr (\<lparr>hit_level = ''MainMemory'', total_cycles = 100\<rparr>\<lparr>total_cycles := total_cycles \<lparr>hit_level = ''MainMemory'', total_cycles = 100\<rparr> + HitLatency (L1_params 1 2 4)\<rparr>, c', n')
           \<and> (n' = [(kLoad, 5), (kLoad, 8), (kLoad, 0)]
              \<or> (\<exists>v res'. v < Ways (L1_params 1 2 4) \<and> valid (sets (\<lparr>sets = [[\<lparr>valid = True, dirty = True, tag = 1\<rparr>, \<lparr>valid = True, dirty = True, tag = 2\<rparr>]],
          policy = [[1 :: nat, 0]], hits = 0, misses = 2, evictions = 0\<rparr>) ! unat (set_idx_of (L1_params 1 2 4) 0) ! v)
                    \<and> dirty (sets (\<lparr>sets = [[\<lparr>valid = True, dirty = True, tag = 1\<rparr>, \<lparr>valid = True, dirty = True, tag = 2\<rparr>]],
          policy = [[1 :: nat, 0]], hits = 0, misses = 2, evictions = 0\<rparr>) ! unat (set_idx_of (L1_params 1 2 4) 0) ! v)
                    \<and> (Probe_Store ''MainMemory'' 100) (evict_addr (L1_params 1 2 4) (tag (sets (\<lparr>sets = [[\<lparr>valid = True, dirty = True, tag = 1\<rparr>, \<lparr>valid = True, dirty = True, tag = 2\<rparr>]],
          policy = [[1 :: nat, 0]], hits = 0, misses = 2, evictions = 0\<rparr>) ! unat (set_idx_of (L1_params 1 2 4) 0) ! v)) (set_idx_of (L1_params 1 2 4) 0)) [(kLoad, 5), (kLoad, 8), (kLoad, 0)]
                        = Inr (res', n')))
           \<and> (\<exists>w<Ways (L1_params 1 2 4). tag_lookup (Ways (L1_params 1 2 4)) (sets c' ! unat (set_idx_of (L1_params 1 2 4) 0)) (tag_of (L1_params 1 2 4) 0) = Some w
                    \<and> valid (sets c' ! unat (set_idx_of (L1_params 1 2 4) 0) ! w)
                    \<and> dirty (sets c' ! unat (set_idx_of (L1_params 1 2 4) 0) ! w)
                    \<and> tag (sets c' ! unat (set_idx_of (L1_params 1 2 4) 0) ! w) = tag_of (L1_params 1 2 4) 0)
           \<and> misses c' = misses (\<lparr>sets = [[\<lparr>valid = True, dirty = True, tag = 1\<rparr>, \<lparr>valid = True, dirty = True, tag = 2\<rparr>]],
          policy = [[1 :: nat, 0]], hits = 0, misses = 2, evictions = 0\<rparr>) + 1 \<and> hits c' = hits (\<lparr>sets = [[\<lparr>valid = True, dirty = True, tag = 1\<rparr>, \<lparr>valid = True, dirty = True, tag = 2\<rparr>]],
          policy = [[1 :: nat, 0]], hits = 0, misses = 2, evictions = 0\<rparr>))" .
  show ?thesis using d v m f l g st e s by (intro conjI) assumption+
qed

section \<open>Tag uniqueness\<close>

lemma distinct_map_filter_nth:
  "distinct (map f (filter Q xs)) \<longleftrightarrow>
     (\<forall>i<length xs. \<forall>j<length xs. Q (xs ! i) \<and> Q (xs ! j) \<and> f (xs ! i) = f (xs ! j) \<longrightarrow> i = j)"
  (is "?L xs \<longleftrightarrow> ?R xs")
proof (induction xs)
  case Nil
  show ?case by simp
next
  case (Cons x xs)
  have mem: "f x \<in> f ` {y \<in> set xs. Q y} \<longleftrightarrow> (\<exists>j<length xs. Q (xs ! j) \<and> f x = f (xs ! j))"
    by (auto simp: in_set_conv_nth image_iff)
  show ?case
  proof
    assume L: "?L (x # xs)"
    then have p2: "?R xs" using Cons.IH by (simp split: if_splits)
    have p1: "\<not> (Q x \<and> Q (xs ! j) \<and> f x = f (xs ! j))" if "j < length xs" for j
      using L mem that by (cases "Q x") auto
    show "?R (x # xs)"
    proof (intro allI impI)
      fix i j
      assume i: "i < length (x # xs)" and j: "j < length (x # xs)"
        and eq: "Q ((x # xs) ! i) \<and> Q ((x # xs) ! j) \<and> f ((x # xs) ! i) = f ((x # xs) ! j)"
      show "i = j"
      proof (cases i)
        case i0: 0
        show ?thesis
        proof (cases j)
          case 0
          with i0 show ?thesis by simp
        next
          case (Suc j')
          with i0 eq j p1 [of j'] show ?thesis by simp
        qed
      next
        case iS: (Suc i')
        show ?thesis
        proof (cases j)
          case 0
          with iS eq i p1 [of i'] show ?thesis by simp
        next
          case (Suc j')
          with iS eq i j p2 [rule_format, of i' j'] show ?thesis by simp
        qed
      qed
    qed
  next
    assume R: "?R (x # xs)"
    have "?R xs"
    proof (intro allI impI)
      fix i j
      assume "i < length xs" "j < length xs" "Q (xs ! i) \<and> Q (xs ! j) \<and> f (xs ! i) = f (xs ! j)"
      with R [rule_format, of "Suc i" "Suc j"] show "i = j" by simp
    qed
    then have d: "?L xs" using Cons.IH by simp
    have "f x \<notin> f ` {y \<in> set xs. Q y}" if "Q x"
    proof
      assume "f x \<in> f ` {y \<in> set xs. Q y}"
      then obtain j where "j < length xs" "Q (xs ! j)" "f x = f (xs ! j)" using mem by blast
      with R [rule_format, of 0 "Suc j"] that show False by simp
    qed
    with d show "?L (x # xs)" by simp
  qed
qed

lemma tag_unique_set_nth:
  "tag_unique_set ls \<longleftrightarrow>
     (\<forall>i<length ls. \<forall>j<length ls. valid (ls ! i) \<and> valid (ls ! j) \<and> tag (ls ! i) = tag (ls ! j) \<longrightarrow> i = j)"
  unfolding tag_unique_set_def by (rule distinct_map_filter_nth)

lemma tag_unique_install:
  assumes "tag_unique_set ls" and "\<forall>w<length ls. \<not> (valid (ls ! w) \<and> tag (ls ! w) = t)"
  shows "tag_unique_set (ls[v := \<lparr>valid = True, dirty = False, tag = t\<rparr>])"
proof (cases "v < length ls")
  case False
  with assms(1) show ?thesis by (simp add: list_update_beyond)
next
  case True
  show ?thesis
    unfolding tag_unique_set_nth
  proof (intro allI impI)
    fix i j
    let ?ls' = "ls[v := \<lparr>valid = True, dirty = False, tag = t\<rparr>]"
    assume i: "i < length ?ls'" and j: "j < length ?ls'"
      and eq: "valid (?ls' ! i) \<and> valid (?ls' ! j) \<and> tag (?ls' ! i) = tag (?ls' ! j)"
    from assms(2) i j have no: "\<not> (valid (ls ! i) \<and> tag (ls ! i) = t)" "\<not> (valid (ls ! j) \<and> tag (ls ! j) = t)"
      by simp_all
    from assms(1) i j have old: "valid (ls ! i) \<and> valid (ls ! j) \<and> tag (ls ! i) = tag (ls ! j) \<Longrightarrow> i = j"
      by (simp add: tag_unique_set_nth)
    show "i = j"
    proof (cases "i = v")
      case iv: True
      show ?thesis
      proof (cases "j = v")
        case True
        with iv show ?thesis by simp
      next
        case False
        with iv eq True no(2) show ?thesis by (simp add: nth_list_update)
      qed
    next
      case iv: False
      show ?thesis
      proof (cases "j = v")
        case True
        with iv eq \<open>v < length ls\<close> no(1) show ?thesis by (simp add: nth_list_update)
      next
        case False
        with iv eq old show ?thesis by simp
      qed
    qed
  qed
qed

lemma tag_unique_dirty:
  assumes "tag_unique_set ls"
  shows "tag_unique_set (ls[w := (ls ! w)\<lparr>dirty := True\<rparr>])"
proof -
  let ?ls' = "ls[w := (ls ! w)\<lparr>dirty := True\<rparr>]"
  have same: "valid (?ls' ! i) = valid (ls ! i) \<and> tag (?ls' ! i) = tag (ls ! i)" for i
    by (cases "w < length ls") (auto simp: nth_list_update list_update_beyond)
  show ?thesis
    unfolding tag_unique_set_nth
  proof (intro allI impI)
    fix i j
    assume "i < length ?ls'" "j < length ?ls'"
      and "valid (?ls' ! i) \<and> valid (?ls' ! j) \<and> tag (?ls' ! i) = tag (?ls' ! j)"
    then have "i < length ls" "j < length ls"
      "valid (ls ! i) \<and> valid (ls ! j) \<and> tag (ls ! i) = tag (ls ! j)"
      by (simp_all add: same)
    with assms show "i = j" unfolding tag_unique_set_nth by blast
  qed
qed

lemma Fill_dims:
  assumes "dims_ok P c" "length (sets c ! unat set_idx) = Ways P"
    and "Fill P next_Store set_idx t (c, n) = Inr (c', n')"
  shows "dims_ok P c'"
proof -
  from Fill_Inr_summary [OF assms(3)] obtain v where
    "sets c' = (sets c)[unat set_idx :=
              (sets c ! unat set_idx)[v := \<lparr>valid = True, dirty = False, tag = t\<rparr>]]"
    by blast
  with assms(1,2) show ?thesis by (simp add: dims_ok_update)
qed

lemma mark_dirty_dims:
  assumes "dims_ok P c" "length (sets c ! unat set_idx) = Ways P"
  shows "dims_ok P (mark_dirty P set_idx t c)"
proof (cases "tag_lookup (Ways P) (sets c ! unat set_idx) t")
  case None
  with assms(1) show ?thesis by (simp add: mark_dirty_def)
next
  case (Some w)
  have "sets (mark_dirty P set_idx t c) = (sets c)[unat set_idx :=
          (sets c ! unat set_idx)[w := (sets c ! unat set_idx ! w)\<lparr>dirty := True\<rparr>]]"
    using Some by (simp add: mark_dirty_def)
  with assms show ?thesis by (simp add: dims_ok_update)
qed

lemma Cache_Load_dims:
  assumes "dims_ok P c" and "Cache_Load P next_Load next_Store addr (c, n) = Inr (r, c', n')"
  shows "dims_ok P c'"
  using assms(2)
proof (cases rule: Cache_Load_InrE)
  case (hit w)
  with assms(1) show ?thesis by (simp add: dims_ok_def)
next
  case (miss res n1)
  have d: "dims_ok P (c\<lparr>misses := misses c + 1\<rparr>)" using assms(1) by (simp add: dims_ok_def)
  have "length (sets (c\<lparr>misses := misses c + 1\<rparr>) ! unat (set_idx_of P addr)) = Ways P"
    using dims_ok_set(2) [OF assms(1) divisors_ok_Sets [OF miss(1)], of addr] by simp
  from Fill_dims [OF d this miss(5)] show ?thesis .
qed

lemma Cache_Store_dims:
  assumes "dims_ok P c" and "Cache_Store P next_Load next_Store addr (c, n) = Inr (r, c', n')"
  shows "dims_ok P c'"
  using assms(2)
proof (cases rule: Cache_Store_InrE)
  case (hit w)
  have "length (sets c ! unat (set_idx_of P addr)) = Ways P"
    using dims_ok_set(2) [OF assms(1) divisors_ok_Sets [OF hit(1)], of addr] .
  with assms(1) hit(4) show ?thesis by (simp add: dims_ok_def list_all_update)
next
  case (miss res n1 c2)
  have d: "dims_ok P (c\<lparr>misses := misses c + 1\<rparr>)" using assms(1) by (simp add: dims_ok_def)
  have "length (sets (c\<lparr>misses := misses c + 1\<rparr>) ! unat (set_idx_of P addr)) = Ways P"
    using dims_ok_set(2) [OF assms(1) divisors_ok_Sets [OF miss(1)], of addr] by simp
  from Fill_dims [OF d this miss(5)] have d2: "dims_ok P c2" .
  from mark_dirty_dims [OF d2 dims_ok_set(2) [OF d2 divisors_ok_Sets [OF miss(1)]]]
  show ?thesis by (simp add: miss(6))
qed

lemma Fill_unique:
  assumes "list_all tag_unique_set (sets c)"
    and "unat set_idx < length (sets c)" "length (sets c ! unat set_idx) = Ways P"
    and "tag_lookup (Ways P) (sets c ! unat set_idx) t = None"
    and "Fill P next_Store set_idx t (c, n) = Inr (c', n')"
  shows "list_all tag_unique_set (sets c')"
proof -
  from Fill_Inr_summary [OF assms(5)] obtain v where s:
    "sets c' = (sets c)[unat set_idx :=
              (sets c ! unat set_idx)[v := \<lparr>valid = True, dirty = False, tag = t\<rparr>]]"
    by blast
  from assms(1,2) have u: "tag_unique_set (sets c ! unat set_idx)" by (simp add: list_all_length)
  from assms(3,4) have "\<forall>w<length (sets c ! unat set_idx).
      \<not> (valid (sets c ! unat set_idx ! w) \<and> tag (sets c ! unat set_idx ! w) = t)"
    by (simp add: tag_lookup_None)
  from tag_unique_install [OF u this] assms(1) show ?thesis by (simp add: s list_all_update)
qed

lemma mark_dirty_unique:
  assumes "list_all tag_unique_set (sets c)" "unat set_idx < length (sets c)"
  shows "list_all tag_unique_set (sets (mark_dirty P set_idx t c))"
proof (cases "tag_lookup (Ways P) (sets c ! unat set_idx) t")
  case None
  with assms(1) show ?thesis by (simp add: mark_dirty_def)
next
  case (Some w)
  from assms have u: "tag_unique_set (sets c ! unat set_idx)" by (simp add: list_all_length)
  have "sets (mark_dirty P set_idx t c) = (sets c)[unat set_idx :=
          (sets c ! unat set_idx)[w := (sets c ! unat set_idx ! w)\<lparr>dirty := True\<rparr>]]"
    using Some by (simp add: mark_dirty_def)
  with assms(1) tag_unique_dirty [OF u, of w] show ?thesis by (simp add: list_all_update)
qed

lemma Cache_Load_unique:
  assumes "dims_ok P c" "list_all tag_unique_set (sets c)"
    and "Cache_Load P next_Load next_Store addr (c, n) = Inr (r, c', n')"
  shows "list_all tag_unique_set (sets c')"
  using assms(3)
proof (cases rule: Cache_Load_InrE)
  case (hit w)
  with assms(2) show ?thesis by simp
next
  case (miss res n1)
  note d = dims_ok_set [OF assms(1) divisors_ok_Sets [OF miss(1)], of addr]
  from Fill_unique [OF _ _ _ _ miss(5)] assms(2) d miss(2) show ?thesis by simp
qed

lemma Cache_Store_unique:
  assumes "dims_ok P c" "list_all tag_unique_set (sets c)"
    and "Cache_Store P next_Load next_Store addr (c, n) = Inr (r, c', n')"
  shows "list_all tag_unique_set (sets c')"
  using assms(3)
proof (cases rule: Cache_Store_InrE)
  case (hit w)
  note d = dims_ok_set [OF assms(1) divisors_ok_Sets [OF hit(1)], of addr]
  from assms(2) d(1) have u: "tag_unique_set (sets c ! unat (set_idx_of P addr))"
    by (simp add: list_all_length)
  from tag_unique_dirty [OF u, of w] assms(2) hit(4) show ?thesis by (simp add: list_all_update)
next
  case (miss res n1 c2)
  note d = dims_ok_set [OF assms(1) divisors_ok_Sets [OF miss(1)], of addr]
  have u2: "list_all tag_unique_set (sets c2)"
    using Fill_unique [OF _ _ _ _ miss(5)] assms(2) d miss(2) by simp
  have "dims_ok P (c\<lparr>misses := misses c + 1\<rparr>)" using assms(1) by (simp add: dims_ok_def)
  from Fill_dims [OF this _ miss(5)] d(2) have d2: "dims_ok P c2" by simp
  from mark_dirty_unique [OF u2 dims_ok_set(1) [OF d2 divisors_ok_Sets [OF miss(1)]]]
  show ?thesis by (simp add: miss(6))
qed

text \<open>Where the object of the next layer comes from after an access.\<close>

lemma Fill_next:
  assumes "Fill P next_Store set_idx t (c, n) = Inr (c', n')"
  shows "n' = n \<or> (\<exists>ea res. next_Store ea n = Inr (res, n'))"
  using Fill_Inr_summary [OF assms] by blast

lemma Cache_Load_next:
  assumes "Cache_Load P next_Load next_Store addr (c, n) = Inr (r, c', n')"
  shows "n' = n \<or> (\<exists>res n1. next_Load addr n = Inr (res, n1)
                    \<and> (n' = n1 \<or> (\<exists>ea res'. next_Store ea n1 = Inr (res', n'))))"
  using assms
proof (cases rule: Cache_Load_InrE)
  case (hit w)
  then show ?thesis by simp
next
  case (miss res n1)
  with Fill_next [OF miss(5)] show ?thesis by blast
qed

lemma Cache_Store_next:
  assumes "Cache_Store P next_Load next_Store addr (c, n) = Inr (r, c', n')"
  shows "n' = n \<or> (\<exists>res n1. next_Load addr n = Inr (res, n1)
                    \<and> (n' = n1 \<or> (\<exists>ea res'. next_Store ea n1 = Inr (res', n'))))"
  using assms
proof (cases rule: Cache_Store_InrE)
  case (hit w)
  then show ?thesis by simp
next
  case (miss res n1 c2)
  with Fill_next [OF miss(5)] show ?thesis by blast
qed

lemma Load_Store_invariant:
  assumes "well_typed H st" "tags_unique st"
  shows "(Load H addr st = Inr (r, st') \<longrightarrow> well_typed H st' \<and> tags_unique st')
       \<and> (Store H addr st = Inr (r, st') \<longrightarrow> well_typed H st' \<and> tags_unique st')"
  using assms
proof (induction H arbitrary: addr st r st')
  case (MainMemory nm)
  then show ?case by (cases st) auto
next
  case (Cache P N)
  from Cache.prems obtain c n where st: "st = Cache_obj c n" by (cases st) simp_all
  with Cache.prems have dims: "dims_ok P c" and wn: "well_typed N n"
    and uc: "list_all tag_unique_set (sets c)" and un: "tags_unique n" by simp_all
  have IHL: "well_typed N m' \<and> tags_unique m'"
    if "well_typed N m" "tags_unique m" "Load N a m = Inr (x, m')" for a m x m'
    using Cache.IH [OF that(1,2), of a x m'] that(3) by simp
  have IHS: "well_typed N m' \<and> tags_unique m'"
    if "well_typed N m" "tags_unique m" "Store N a m = Inr (x, m')" for a m x m'
    using Cache.IH [OF that(1,2), of a x m'] that(3) by simp
  have below: "well_typed N n' \<and> tags_unique n'"
    if "n' = n \<or> (\<exists>res n1. Load N addr n = Inr (res, n1)
                    \<and> (n' = n1 \<or> (\<exists>ea res'. Store N ea n1 = Inr (res', n'))))" for n'
  proof -
    from that consider "n' = n"
      | res n1 where "Load N addr n = Inr (res, n1)" "n' = n1"
      | res n1 ea res' where "Load N addr n = Inr (res, n1)" "Store N ea n1 = Inr (res', n')"
      by blast
    then show ?thesis
    proof cases
      case 1
      with wn un show ?thesis by simp
    next
      case 2
      with IHL [OF wn un 2(1)] show ?thesis by simp
    next
      case 3
      from IHL [OF wn un 3(1)] have "well_typed N n1" "tags_unique n1" by simp_all
      from IHS [OF this 3(2)] show ?thesis .
    qed
  qed
  show ?case
  proof (intro conjI impI)
    assume "Load (Cache P N) addr st = Inr (r, st')"
    then obtain c' n' where st': "st' = Cache_obj c' n'"
      and L: "Cache_Load P (Load N) (Store N) addr (c, n) = Inr (r, c', n')"
      unfolding st Load_Cache_obj_Inr by blast
    from Cache_Load_dims [OF dims L] Cache_Load_unique [OF dims uc L] below [OF Cache_Load_next [OF L]]
    show "well_typed (Cache P N) st'" and "tags_unique st'" by (simp_all add: st')
  next
    assume "Store (Cache P N) addr st = Inr (r, st')"
    then obtain c' n' where st': "st' = Cache_obj c' n'"
      and L: "Cache_Store P (Load N) (Store N) addr (c, n) = Inr (r, c', n')"
      unfolding st Store_Cache_obj_Inr by blast
    from Cache_Store_dims [OF dims L] Cache_Store_unique [OF dims uc L] below [OF Cache_Store_next [OF L]]
    show "well_typed (Cache P N) st'" and "tags_unique st'" by (simp_all add: st')
  qed
qed

lemma tag_unique_set_replicate_invalid: "\<not> valid l \<Longrightarrow> tag_unique_set (replicate W l)"
  by (simp add: tag_unique_set_def)

lemma construct_obj_invariant: "well_typed H (construct_obj H lat) \<and> tags_unique (construct_obj H lat)"
  by (induction H)
     (simp_all add: Cache_init_def dims_ok_def list_all_length tag_unique_set_replicate_invalid)

lemma simulate_invariant:
  assumes "well_typed H st" "tags_unique st"
    and "simulate (Load H) (Store H) accesses st = Inr (ress, st')"
  shows "well_typed H st' \<and> tags_unique st'"
  using assms
proof (induction accesses arbitrary: st ress)
  case Nil
  then show ?case by simp
next
  case (Cons a accesses)
  obtain ty addr where a: "a = (ty, addr)" by (cases a)
  from Cons.prems(3) obtain res st1 ress1 where
    step: "(case ty of kLoad \<Rightarrow> Load H addr st | kStore \<Rightarrow> Store H addr st) = Inr (res, st1)"
    and rest: "simulate (Load H) (Store H) accesses st1 = Inr (ress1, st')"
    by (auto simp: a split: sum.splits)
  from step Load_Store_invariant [OF Cons.prems(1,2), of addr res st1]
  have "well_typed H st1" "tags_unique st1" by (cases ty; simp)+
  from Cons.IH [OF this rest] show ?case .
qed

text \<open>
  C7: in every set of every cache level the tags of the valid lines are pairwise distinct.
  This holds in the constructed object; every \<open>Load\<close> and every \<open>Store\<close> that returns
  preserves it, from any object that has the type of the chain; so it holds after any
  sequence of accesses. \<open>Fill\<close> installs a tag only after the tag scan found no valid
  line with it.
\<close>

theorem tag_uniqueness_invariant:
  "tags_unique (construct_obj H lat)
   \<and> (well_typed H st \<and> tags_unique st \<longrightarrow>
        (Load H addr st = Inr (r, st') \<longrightarrow> tags_unique st')
      \<and> (Store H addr st = Inr (r, st') \<longrightarrow> tags_unique st'))
   \<and> (simulate (Load H) (Store H) accesses (construct_obj H lat) = Inr (ress, st'') \<longrightarrow> tags_unique st'')"
proof (intro conjI impI)
  show "tags_unique (construct_obj H lat)" by (simp add: construct_obj_invariant)
next
  assume a: "well_typed H st \<and> tags_unique st" and "Load H addr st = Inr (r, st')"
  with Load_Store_invariant [of H st addr r st'] show "tags_unique st'" by simp
next
  assume a: "well_typed H st \<and> tags_unique st" and "Store H addr st = Inr (r, st')"
  with Load_Store_invariant [of H st addr r st'] show "tags_unique st'" by simp
next
  assume "simulate (Load H) (Store H) accesses (construct_obj H lat) = Inr (ress, st'')"
  from simulate_invariant [OF _ _ this] construct_obj_invariant [of H lat]
  show "tags_unique st''" by simp
qed

theorem tag_uniqueness_invariant_witness:
  "tags_unique (construct_obj two_level_chain 100)
   \<and> simulate (Load two_level_chain) (Store two_level_chain) [(kLoad, 0), (kStore, 4)] (construct_obj two_level_chain 100)
       = Inr ([\<lparr>hit_level = ''MainMemory'', total_cycles = 111\<rparr>, \<lparr>hit_level = ''MainMemory'', total_cycles = 111\<rparr>], (Cache_obj
       \<lparr>sets = [[\<lparr>valid = True, dirty = True, tag = 1\<rparr>]],
          policy = [[0 :: nat]], hits = 0, misses = 2, evictions = 0\<rparr>
       (Cache_obj
       \<lparr>sets = [[\<lparr>valid = True, dirty = False, tag = 0\<rparr>, \<lparr>valid = True, dirty = False, tag = 1\<rparr>]],
          policy = [[1 :: nat, 0]], hits = 0, misses = 2, evictions = 0\<rparr>
       (MainMemory_obj 100))))
   \<and> well_typed two_level_chain (Cache_obj
       \<lparr>sets = [[\<lparr>valid = True, dirty = True, tag = 1\<rparr>]],
          policy = [[0 :: nat]], hits = 0, misses = 2, evictions = 0\<rparr>
       (Cache_obj
       \<lparr>sets = [[\<lparr>valid = True, dirty = False, tag = 0\<rparr>, \<lparr>valid = True, dirty = False, tag = 1\<rparr>]],
          policy = [[1 :: nat, 0]], hits = 0, misses = 2, evictions = 0\<rparr>
       (MainMemory_obj 100)))
   \<and> tags_unique (Cache_obj
       \<lparr>sets = [[\<lparr>valid = True, dirty = True, tag = 1\<rparr>]],
          policy = [[0 :: nat]], hits = 0, misses = 2, evictions = 0\<rparr>
       (Cache_obj
       \<lparr>sets = [[\<lparr>valid = True, dirty = False, tag = 0\<rparr>, \<lparr>valid = True, dirty = False, tag = 1\<rparr>]],
          policy = [[1 :: nat, 0]], hits = 0, misses = 2, evictions = 0\<rparr>
       (MainMemory_obj 100)))
   \<and> Load two_level_chain 8 (Cache_obj
       \<lparr>sets = [[\<lparr>valid = True, dirty = True, tag = 1\<rparr>]],
          policy = [[0 :: nat]], hits = 0, misses = 2, evictions = 0\<rparr>
       (Cache_obj
       \<lparr>sets = [[\<lparr>valid = True, dirty = False, tag = 0\<rparr>, \<lparr>valid = True, dirty = False, tag = 1\<rparr>]],
          policy = [[1 :: nat, 0]], hits = 0, misses = 2, evictions = 0\<rparr>
       (MainMemory_obj 100)))
       = Inr (\<lparr>hit_level = ''MainMemory'', total_cycles = 111\<rparr>, (Cache_obj
       \<lparr>sets = [[\<lparr>valid = True, dirty = False, tag = 2\<rparr>]],
          policy = [[0 :: nat]], hits = 0, misses = 3, evictions = 1\<rparr>
       (Cache_obj
       \<lparr>sets = [[\<lparr>valid = True, dirty = False, tag = 2\<rparr>, \<lparr>valid = True, dirty = True, tag = 1\<rparr>]],
          policy = [[1 :: nat, 0]], hits = 1, misses = 3, evictions = 0\<rparr>
       (MainMemory_obj 100))))
   \<and> tags_unique (Cache_obj
       \<lparr>sets = [[\<lparr>valid = True, dirty = False, tag = 2\<rparr>]],
          policy = [[0 :: nat]], hits = 0, misses = 3, evictions = 1\<rparr>
       (Cache_obj
       \<lparr>sets = [[\<lparr>valid = True, dirty = False, tag = 2\<rparr>, \<lparr>valid = True, dirty = True, tag = 1\<rparr>]],
          policy = [[1 :: nat, 0]], hits = 1, misses = 3, evictions = 0\<rparr>
       (MainMemory_obj 100)))
   \<and> Store two_level_chain 8 (Cache_obj
       \<lparr>sets = [[\<lparr>valid = True, dirty = True, tag = 1\<rparr>]],
          policy = [[0 :: nat]], hits = 0, misses = 2, evictions = 0\<rparr>
       (Cache_obj
       \<lparr>sets = [[\<lparr>valid = True, dirty = False, tag = 0\<rparr>, \<lparr>valid = True, dirty = False, tag = 1\<rparr>]],
          policy = [[1 :: nat, 0]], hits = 0, misses = 2, evictions = 0\<rparr>
       (MainMemory_obj 100)))
       = Inr (\<lparr>hit_level = ''MainMemory'', total_cycles = 111\<rparr>, (Cache_obj
       \<lparr>sets = [[\<lparr>valid = True, dirty = True, tag = 2\<rparr>]],
          policy = [[0 :: nat]], hits = 0, misses = 3, evictions = 1\<rparr>
       (Cache_obj
       \<lparr>sets = [[\<lparr>valid = True, dirty = False, tag = 2\<rparr>, \<lparr>valid = True, dirty = True, tag = 1\<rparr>]],
          policy = [[1 :: nat, 0]], hits = 1, misses = 3, evictions = 0\<rparr>
       (MainMemory_obj 100))))
   \<and> tags_unique (Cache_obj
       \<lparr>sets = [[\<lparr>valid = True, dirty = True, tag = 2\<rparr>]],
          policy = [[0 :: nat]], hits = 0, misses = 3, evictions = 1\<rparr>
       (Cache_obj
       \<lparr>sets = [[\<lparr>valid = True, dirty = False, tag = 2\<rparr>, \<lparr>valid = True, dirty = True, tag = 1\<rparr>]],
          policy = [[1 :: nat, 0]], hits = 1, misses = 3, evictions = 0\<rparr>
       (MainMemory_obj 100)))
   \<and> simulate (Load two_level_chain) (Store two_level_chain)
        [(kLoad, 0), (kStore, 4), (kLoad, 8), (kStore, 0), (kLoad, 12), (kLoad, 8)] (construct_obj two_level_chain 100)
      = Inr ([\<lparr>hit_level = ''MainMemory'', total_cycles = 111\<rparr>, \<lparr>hit_level = ''MainMemory'', total_cycles = 111\<rparr>, \<lparr>hit_level = ''MainMemory'', total_cycles = 111\<rparr>, \<lparr>hit_level = ''MainMemory'', total_cycles = 111\<rparr>, \<lparr>hit_level = ''MainMemory'', total_cycles = 111\<rparr>, \<lparr>hit_level = ''MainMemory'', total_cycles = 111\<rparr>], (Cache_obj
       \<lparr>sets = [[\<lparr>valid = True, dirty = False, tag = 2\<rparr>]],
          policy = [[0 :: nat]], hits = 0, misses = 6, evictions = 2\<rparr>
       (Cache_obj
       \<lparr>sets = [[\<lparr>valid = True, dirty = True, tag = 0\<rparr>, \<lparr>valid = True, dirty = False, tag = 2\<rparr>]],
          policy = [[1 :: nat, 0]], hits = 2, misses = 6, evictions = 1\<rparr>
       (MainMemory_obj 100))))
   \<and> tags_unique (Cache_obj
       \<lparr>sets = [[\<lparr>valid = True, dirty = False, tag = 2\<rparr>]],
          policy = [[0 :: nat]], hits = 0, misses = 6, evictions = 2\<rparr>
       (Cache_obj
       \<lparr>sets = [[\<lparr>valid = True, dirty = True, tag = 0\<rparr>, \<lparr>valid = True, dirty = False, tag = 2\<rparr>]],
          policy = [[1 :: nat, 0]], hits = 2, misses = 6, evictions = 1\<rparr>
       (MainMemory_obj 100)))"
proof -
  have i: "simulate (Load two_level_chain) (Store two_level_chain) [(kLoad, 0), (kStore, 4)] (construct_obj two_level_chain 100)
       = Inr ([\<lparr>hit_level = ''MainMemory'', total_cycles = 111\<rparr>, \<lparr>hit_level = ''MainMemory'', total_cycles = 111\<rparr>], (Cache_obj
       \<lparr>sets = [[\<lparr>valid = True, dirty = True, tag = 1\<rparr>]],
          policy = [[0 :: nat]], hits = 0, misses = 2, evictions = 0\<rparr>
       (Cache_obj
       \<lparr>sets = [[\<lparr>valid = True, dirty = False, tag = 0\<rparr>, \<lparr>valid = True, dirty = False, tag = 1\<rparr>]],
          policy = [[1 :: nat, 0]], hits = 0, misses = 2, evictions = 0\<rparr>
       (MainMemory_obj 100))))"
    by code_simp
  have w: "well_typed two_level_chain (Cache_obj
       \<lparr>sets = [[\<lparr>valid = True, dirty = True, tag = 1\<rparr>]],
          policy = [[0 :: nat]], hits = 0, misses = 2, evictions = 0\<rparr>
       (Cache_obj
       \<lparr>sets = [[\<lparr>valid = True, dirty = False, tag = 0\<rparr>, \<lparr>valid = True, dirty = False, tag = 1\<rparr>]],
          policy = [[1 :: nat, 0]], hits = 0, misses = 2, evictions = 0\<rparr>
       (MainMemory_obj 100)))
     \<and> tags_unique (Cache_obj
       \<lparr>sets = [[\<lparr>valid = True, dirty = True, tag = 1\<rparr>]],
          policy = [[0 :: nat]], hits = 0, misses = 2, evictions = 0\<rparr>
       (Cache_obj
       \<lparr>sets = [[\<lparr>valid = True, dirty = False, tag = 0\<rparr>, \<lparr>valid = True, dirty = False, tag = 1\<rparr>]],
          policy = [[1 :: nat, 0]], hits = 0, misses = 2, evictions = 0\<rparr>
       (MainMemory_obj 100)))"
    by code_simp
  have l: "Load two_level_chain 8 (Cache_obj
       \<lparr>sets = [[\<lparr>valid = True, dirty = True, tag = 1\<rparr>]],
          policy = [[0 :: nat]], hits = 0, misses = 2, evictions = 0\<rparr>
       (Cache_obj
       \<lparr>sets = [[\<lparr>valid = True, dirty = False, tag = 0\<rparr>, \<lparr>valid = True, dirty = False, tag = 1\<rparr>]],
          policy = [[1 :: nat, 0]], hits = 0, misses = 2, evictions = 0\<rparr>
       (MainMemory_obj 100)))
       = Inr (\<lparr>hit_level = ''MainMemory'', total_cycles = 111\<rparr>, (Cache_obj
       \<lparr>sets = [[\<lparr>valid = True, dirty = False, tag = 2\<rparr>]],
          policy = [[0 :: nat]], hits = 0, misses = 3, evictions = 1\<rparr>
       (Cache_obj
       \<lparr>sets = [[\<lparr>valid = True, dirty = False, tag = 2\<rparr>, \<lparr>valid = True, dirty = True, tag = 1\<rparr>]],
          policy = [[1 :: nat, 0]], hits = 1, misses = 3, evictions = 0\<rparr>
       (MainMemory_obj 100))))"
    by code_simp
  have s: "Store two_level_chain 8 (Cache_obj
       \<lparr>sets = [[\<lparr>valid = True, dirty = True, tag = 1\<rparr>]],
          policy = [[0 :: nat]], hits = 0, misses = 2, evictions = 0\<rparr>
       (Cache_obj
       \<lparr>sets = [[\<lparr>valid = True, dirty = False, tag = 0\<rparr>, \<lparr>valid = True, dirty = False, tag = 1\<rparr>]],
          policy = [[1 :: nat, 0]], hits = 0, misses = 2, evictions = 0\<rparr>
       (MainMemory_obj 100)))
       = Inr (\<lparr>hit_level = ''MainMemory'', total_cycles = 111\<rparr>, (Cache_obj
       \<lparr>sets = [[\<lparr>valid = True, dirty = True, tag = 2\<rparr>]],
          policy = [[0 :: nat]], hits = 0, misses = 3, evictions = 1\<rparr>
       (Cache_obj
       \<lparr>sets = [[\<lparr>valid = True, dirty = False, tag = 2\<rparr>, \<lparr>valid = True, dirty = True, tag = 1\<rparr>]],
          policy = [[1 :: nat, 0]], hits = 1, misses = 3, evictions = 0\<rparr>
       (MainMemory_obj 100))))"
    by code_simp
  have r: "simulate (Load two_level_chain) (Store two_level_chain)
        [(kLoad, 0), (kStore, 4), (kLoad, 8), (kStore, 0), (kLoad, 12), (kLoad, 8)] (construct_obj two_level_chain 100)
      = Inr ([\<lparr>hit_level = ''MainMemory'', total_cycles = 111\<rparr>, \<lparr>hit_level = ''MainMemory'', total_cycles = 111\<rparr>, \<lparr>hit_level = ''MainMemory'', total_cycles = 111\<rparr>, \<lparr>hit_level = ''MainMemory'', total_cycles = 111\<rparr>, \<lparr>hit_level = ''MainMemory'', total_cycles = 111\<rparr>, \<lparr>hit_level = ''MainMemory'', total_cycles = 111\<rparr>], (Cache_obj
       \<lparr>sets = [[\<lparr>valid = True, dirty = False, tag = 2\<rparr>]],
          policy = [[0 :: nat]], hits = 0, misses = 6, evictions = 2\<rparr>
       (Cache_obj
       \<lparr>sets = [[\<lparr>valid = True, dirty = True, tag = 0\<rparr>, \<lparr>valid = True, dirty = False, tag = 2\<rparr>]],
          policy = [[1 :: nat, 0]], hits = 2, misses = 6, evictions = 1\<rparr>
       (MainMemory_obj 100))))"
    by code_simp
  from tag_uniqueness_invariant [THEN conjunct1]
  have 0: "tags_unique (construct_obj two_level_chain 100)" .
  from tag_uniqueness_invariant [THEN conjunct2, THEN conjunct1, THEN mp, OF w, THEN conjunct1, THEN mp, OF l]
  have 1: "tags_unique (Cache_obj
       \<lparr>sets = [[\<lparr>valid = True, dirty = False, tag = 2\<rparr>]],
          policy = [[0 :: nat]], hits = 0, misses = 3, evictions = 1\<rparr>
       (Cache_obj
       \<lparr>sets = [[\<lparr>valid = True, dirty = False, tag = 2\<rparr>, \<lparr>valid = True, dirty = True, tag = 1\<rparr>]],
          policy = [[1 :: nat, 0]], hits = 1, misses = 3, evictions = 0\<rparr>
       (MainMemory_obj 100)))" .
  from tag_uniqueness_invariant [THEN conjunct2, THEN conjunct1, THEN mp, OF w, THEN conjunct2, THEN mp, OF s]
  have 2: "tags_unique (Cache_obj
       \<lparr>sets = [[\<lparr>valid = True, dirty = True, tag = 2\<rparr>]],
          policy = [[0 :: nat]], hits = 0, misses = 3, evictions = 1\<rparr>
       (Cache_obj
       \<lparr>sets = [[\<lparr>valid = True, dirty = False, tag = 2\<rparr>, \<lparr>valid = True, dirty = True, tag = 1\<rparr>]],
          policy = [[1 :: nat, 0]], hits = 1, misses = 3, evictions = 0\<rparr>
       (MainMemory_obj 100)))" .
  from tag_uniqueness_invariant [THEN conjunct2, THEN conjunct2, THEN mp, OF r]
  have 3: "tags_unique (Cache_obj
       \<lparr>sets = [[\<lparr>valid = True, dirty = False, tag = 2\<rparr>]],
          policy = [[0 :: nat]], hits = 0, misses = 6, evictions = 2\<rparr>
       (Cache_obj
       \<lparr>sets = [[\<lparr>valid = True, dirty = True, tag = 0\<rparr>, \<lparr>valid = True, dirty = False, tag = 2\<rparr>]],
          policy = [[1 :: nat, 0]], hits = 2, misses = 6, evictions = 1\<rparr>
       (MainMemory_obj 100)))" .
  show ?thesis using 0 i w l s r 1 2 3 by (intro conjI) (assumption | erule conjunct1 | erule conjunct2)+
qed

section \<open>The capacity of a set\<close>

lemma Cache_Load_resident:
  assumes "dims_ok P c" and "Cache_Load P next_Load next_Store addr (c, n) = Inr (r, c', n')"
  shows "\<exists>w<Ways P. tag_lookup (Ways P) (sets c' ! unat (set_idx_of P addr)) (tag_of P addr) = Some w"
  using assms(2)
proof (cases rule: Cache_Load_InrE)
  case (hit w)
  then show ?thesis by (auto simp: tag_lookup_Some)
next
  case (miss res n1)
  note d = dims_ok_set [OF assms(1) divisors_ok_Sets [OF miss(1)], of addr]
  from Fill_Inr_summary [OF miss(5)] obtain v where v: "v < Ways P"
    and s: "sets c' = (sets c)[unat (set_idx_of P addr) :=
       (sets c ! unat (set_idx_of P addr))[v := \<lparr>valid = True, dirty = False, tag = tag_of P addr\<rparr>]]"
    by auto
  from tag_lookup_installed [OF v d(2), of "tag_of P addr"] d(1) show ?thesis by (simp add: s)
qed

text \<open>With one way, a \<open>Load\<close> of another tag of the set replaces the line.\<close>

lemma one_way_second_tag_evicts:
  assumes W1: "Ways P = 1" and dims1: "dims_ok P c1"
    and same_set: "set_idx_of P B = set_idx_of P A" and other_tag: "tag_of P B \<noteq> tag_of P A"
    and A1: "tag_lookup (Ways P) (sets c1 ! unat (set_idx_of P A)) (tag_of P A) = Some 0"
    and second: "Cache_Load P next_Load next_Store B (c1, n1) = Inr (r2, c2, n2)"
  shows "tag_lookup (Ways P) (sets c2 ! unat (set_idx_of P A)) (tag_of P A) = None
       \<and> tag_lookup (Ways P) (sets c2 ! unat (set_idx_of P A)) (tag_of P B) = Some 0
       \<and> misses c2 = misses c1 + 1
       \<and> (\<exists>res m. next_Load B n1 = Inr (res, m) \<and> r2 = res\<lparr>total_cycles := total_cycles res + HitLatency P\<rparr>)"
proof -
  let ?s = "set_idx_of P A"
  let ?ls1 = "sets c1 ! unat ?s"
  from A1 have line0: "valid (?ls1 ! 0)" "tag (?ls1 ! 0) = tag_of P A" by (simp_all add: tag_lookup_Some)
  have B1: "tag_lookup (Ways P) ?ls1 (tag_of P B) = None"
    using line0 other_tag by (simp add: tag_lookup_None W1)
  from second show ?thesis
  proof (cases rule: Cache_Load_InrE)
    case (hit w)
    with B1 same_set show ?thesis by simp
  next
    case (miss res n1')
    note d = dims_ok_set [OF dims1 divisors_ok_Sets [OF miss(1)], of A]
    from Fill_Inr_summary [OF miss(5)] W1 same_set
    have s: "sets c2 = (sets c1)[unat ?s := ?ls1[0 := \<lparr>valid = True, dirty = False, tag = tag_of P B\<rparr>]]"
      and m: "misses c2 = misses c1 + 1"
      by auto
    have l0: "sets c2 ! unat ?s ! 0 = \<lparr>valid = True, dirty = False, tag = tag_of P B\<rparr>"
      using d W1 by (simp add: s)
    from l0 other_tag m miss(3,4) show ?thesis by (simp add: tag_lookup_None tag_lookup_Some W1)
  qed
qed

text \<open>
  C3, as stated: with \<open>Ways = 1\<close> and \<open>Sets = S\<close>, of \<open>S + 1\<close> distinct addresses
  of one set that are loaded, the first is evicted by access \<open>S + 1\<close> and not earlier.
  With \<open>Sets = 2\<close>, \<open>Ways = 1\<close> and \<open>BlockSize = 4\<close> the addresses 0, 8 and 16 are in set
  0, with tags 0, 1 and 2. After \<open>Load(0)\<close> the line of set 0 holds tag 0; after
  \<open>Load(8)\<close>, the second access and not the third, it holds tag 1 and the block of
  address 0 is gone.
\<close>

theorem capacity_law_counterexample:
  "Ways (L1_params 2 1 4) = 1 \<and> Sets (L1_params 2 1 4) = 2
   \<and> set_idx_of (L1_params 2 1 4) 0 = 0 \<and> set_idx_of (L1_params 2 1 4) 8 = 0 \<and> set_idx_of (L1_params 2 1 4) 16 = 0
   \<and> tag_of (L1_params 2 1 4) 0 = 0 \<and> tag_of (L1_params 2 1 4) 8 = 1 \<and> tag_of (L1_params 2 1 4) 16 = 2
   \<and> simulate (Cache_Load (L1_params 2 1 4) (Probe_Load ''MainMemory'' 100) (Probe_Store ''MainMemory'' 100))
       (Cache_Store (L1_params 2 1 4) (Probe_Load ''MainMemory'' 100) (Probe_Store ''MainMemory'' 100))
       [(kLoad, 0)] ((Cache_init (L1_params 2 1 4)), [])
      = Inr ([\<lparr>hit_level = ''MainMemory'', total_cycles = 101\<rparr>],
         \<lparr>sets = [[\<lparr>valid = True, dirty = False, tag = 0\<rparr>], [\<lparr>valid = False, dirty = False, tag = 0\<rparr>]], policy = [[0 :: nat], [0]],
          hits = 0, misses = 1, evictions = 0\<rparr>, [(kLoad, 0)])
   \<and> simulate (Cache_Load (L1_params 2 1 4) (Probe_Load ''MainMemory'' 100) (Probe_Store ''MainMemory'' 100))
       (Cache_Store (L1_params 2 1 4) (Probe_Load ''MainMemory'' 100) (Probe_Store ''MainMemory'' 100))
       [(kLoad, 0), (kLoad, 8)] ((Cache_init (L1_params 2 1 4)), [])
      = Inr ([\<lparr>hit_level = ''MainMemory'', total_cycles = 101\<rparr>, \<lparr>hit_level = ''MainMemory'', total_cycles = 101\<rparr>],
         \<lparr>sets = [[\<lparr>valid = True, dirty = False, tag = 1\<rparr>], [\<lparr>valid = False, dirty = False, tag = 0\<rparr>]], policy = [[0 :: nat], [0]],
          hits = 0, misses = 2, evictions = 0\<rparr>, [(kLoad, 0), (kLoad, 8)])
   \<and> tag_lookup 1 [\<lparr>valid = True, dirty = False, tag = 1\<rparr>] 0 = None"
  by code_simp

text \<open>
  C3, amended: a set holds \<open>Ways\<close> blocks, whatever \<open>Sets\<close> is. With \<open>Ways = 1\<close> and any
  \<open>Sets\<close>, for addresses \<open>A\<close> and \<open>B\<close> of one set with different tags: a \<open>Load\<close> of \<open>A\<close>
  returns and leaves the block of \<open>A\<close> in the one line of the set; a \<open>Load\<close> of \<open>B\<close> from
  any such state returns too, with the result of the next layer's \<open>Load\<close> plus
  \<open>HitLatency\<close>: it is a miss, it evicts the block of \<open>A\<close>, and afterwards the line holds
  the block of \<open>B\<close>. So the eviction comes with the second tag, which is access \<open>S + 1\<close>
  only for \<open>S = 1\<close>. Each call returns whenever the next layer's calls return and the
  line is invalid or the policy answers way 0.
\<close>

theorem one_way_set_evicts_on_second_tag:
  assumes W1: "Ways P = 1" and div: "divisors_ok P"
    and same_set: "set_idx_of P B = set_idx_of P A" and other_tag: "tag_of P B \<noteq> tag_of P A"
  shows "(dims_ok P c \<and> victim_ok P c (set_idx_of P A) \<and> next_Load A n = Inr (resA, m)
            \<and> (\<forall>ea. \<exists>res' n'. next_Store ea m = Inr (res', n'))
          \<longrightarrow> (\<exists>r1 c1 n1. Cache_Load P next_Load next_Store A (c, n) = Inr (r1, c1, n1)
                 \<and> dims_ok P c1
                 \<and> tag_lookup (Ways P) (sets c1 ! unat (set_idx_of P A)) (tag_of P A) = Some 0
                 \<and> tag_lookup (Ways P) (sets c1 ! unat (set_idx_of P A)) (tag_of P B) = None))
       \<and> (dims_ok P c1
            \<and> tag_lookup (Ways P) (sets c1 ! unat (set_idx_of P A)) (tag_of P A) = Some 0
            \<and> victim_ok P c1 (set_idx_of P A) \<and> next_Load B n1 = Inr (resB, m1)
            \<and> (\<forall>ea. \<exists>res' n'. next_Store ea m1 = Inr (res', n'))
          \<longrightarrow> (\<exists>c2 n2. Cache_Load P next_Load next_Store B (c1, n1)
                    = Inr (resB\<lparr>total_cycles := total_cycles resB + HitLatency P\<rparr>, c2, n2)
                 \<and> dims_ok P c2
                 \<and> tag_lookup (Ways P) (sets c2 ! unat (set_idx_of P A)) (tag_of P A) = None
                 \<and> tag_lookup (Ways P) (sets c2 ! unat (set_idx_of P A)) (tag_of P B) = Some 0
                 \<and> misses c2 = misses c1 + 1))"
proof (intro conjI impI)
  assume a: "dims_ok P c \<and> victim_ok P c (set_idx_of P A) \<and> next_Load A n = Inr (resA, m)
            \<and> (\<forall>ea. \<exists>res' n'. next_Store ea m = Inr (res', n'))"
  then have dims: "dims_ok P c" and vic: "victim_ok P c (set_idx_of P A)"
    and nL: "next_Load A n = Inr (resA, m)" and nS: "\<forall>ea. \<exists>res' n'. next_Store ea m = Inr (res', n')"
    by blast+
  from Cache_Load_returns [where next_Load = next_Load and next_Store = next_Store, OF div nL vic nS]
  obtain r1 c1' n1' where ret: "Cache_Load P next_Load next_Store A (c, n) = Inr (r1, c1', n1')" by blast
  from Cache_Load_resident [OF dims ret] W1
  have A1: "tag_lookup (Ways P) (sets c1' ! unat (set_idx_of P A)) (tag_of P A) = Some 0" by simp
  then have "valid (sets c1' ! unat (set_idx_of P A) ! 0)"
    "tag (sets c1' ! unat (set_idx_of P A) ! 0) = tag_of P A"
    by (simp_all add: tag_lookup_Some)
  with other_tag
  have "tag_lookup (Ways P) (sets c1' ! unat (set_idx_of P A)) (tag_of P B) = None"
    by (simp add: tag_lookup_None W1)
  with A1 ret Cache_Load_dims [OF dims ret]
  show "\<exists>r1 c1 n1. Cache_Load P next_Load next_Store A (c, n) = Inr (r1, c1, n1)
                 \<and> dims_ok P c1
                 \<and> tag_lookup (Ways P) (sets c1 ! unat (set_idx_of P A)) (tag_of P A) = Some 0
                 \<and> tag_lookup (Ways P) (sets c1 ! unat (set_idx_of P A)) (tag_of P B) = None"
    by blast
next
  assume a: "dims_ok P c1
            \<and> tag_lookup (Ways P) (sets c1 ! unat (set_idx_of P A)) (tag_of P A) = Some 0
            \<and> victim_ok P c1 (set_idx_of P A) \<and> next_Load B n1 = Inr (resB, m1)
            \<and> (\<forall>ea. \<exists>res' n'. next_Store ea m1 = Inr (res', n'))"
  then have dims: "dims_ok P c1"
    and A1: "tag_lookup (Ways P) (sets c1 ! unat (set_idx_of P A)) (tag_of P A) = Some 0"
    and vic: "victim_ok P c1 (set_idx_of P B)"
    and nL: "next_Load B n1 = Inr (resB, m1)" and nS: "\<forall>ea. \<exists>res' n'. next_Store ea m1 = Inr (res', n')"
    using same_set by simp_all
  from Cache_Load_returns [where next_Load = next_Load and next_Store = next_Store, OF div nL vic nS]
  obtain r2 c2 n2 where ret: "Cache_Load P next_Load next_Store B (c1, n1) = Inr (r2, c2, n2)" by blast
  from one_way_second_tag_evicts [OF W1 dims same_set other_tag A1 ret] nL
  have "r2 = resB\<lparr>total_cycles := total_cycles resB + HitLatency P\<rparr>"
    and "tag_lookup (Ways P) (sets c2 ! unat (set_idx_of P A)) (tag_of P A) = None"
    and "tag_lookup (Ways P) (sets c2 ! unat (set_idx_of P A)) (tag_of P B) = Some 0"
    and "misses c2 = misses c1 + 1"
    by auto
  with ret Cache_Load_dims [OF dims ret]
  show "\<exists>c2 n2. Cache_Load P next_Load next_Store B (c1, n1)
                    = Inr (resB\<lparr>total_cycles := total_cycles resB + HitLatency P\<rparr>, c2, n2)
                 \<and> dims_ok P c2
                 \<and> tag_lookup (Ways P) (sets c2 ! unat (set_idx_of P A)) (tag_of P A) = None
                 \<and> tag_lookup (Ways P) (sets c2 ! unat (set_idx_of P A)) (tag_of P B) = Some 0
                 \<and> misses c2 = misses c1 + 1"
    by blast
qed

theorem one_way_set_evicts_on_second_tag_witness:
  "Ways (L1_params 2 1 4) = 1 \<and> Sets (L1_params 2 1 4) = 2 \<and> divisors_ok (L1_params 2 1 4)
   \<and> set_idx_of (L1_params 2 1 4) 8 = set_idx_of (L1_params 2 1 4) 0 \<and> tag_of (L1_params 2 1 4) 8 \<noteq> tag_of (L1_params 2 1 4) 0
   \<and> dims_ok (L1_params 2 1 4) (Cache_init (L1_params 2 1 4)) \<and> victim_ok (L1_params 2 1 4) (Cache_init (L1_params 2 1 4)) (set_idx_of (L1_params 2 1 4) 0) \<and> (Probe_Load ''MainMemory'' 100) 0 [] = Inr (\<lparr>hit_level = ''MainMemory'', total_cycles = 100\<rparr>, [(kLoad, 0)])
            \<and> (\<forall>ea. \<exists>res' n'. (Probe_Store ''MainMemory'' 100) ea [(kLoad, 0)] = Inr (res', n'))
   \<and> (\<exists>r1 c1 n1. Cache_Load (L1_params 2 1 4) (Probe_Load ''MainMemory'' 100) (Probe_Store ''MainMemory'' 100) 0 ((Cache_init (L1_params 2 1 4)), []) = Inr (r1, c1, n1)
                 \<and> dims_ok (L1_params 2 1 4) c1
                 \<and> tag_lookup (Ways (L1_params 2 1 4)) (sets c1 ! unat (set_idx_of (L1_params 2 1 4) 0)) (tag_of (L1_params 2 1 4) 0) = Some 0
                 \<and> tag_lookup (Ways (L1_params 2 1 4)) (sets c1 ! unat (set_idx_of (L1_params 2 1 4) 0)) (tag_of (L1_params 2 1 4) 8) = None)
   \<and> Cache_Load (L1_params 2 1 4) (Probe_Load ''MainMemory'' 100) (Probe_Store ''MainMemory'' 100) 0 ((Cache_init (L1_params 2 1 4)), [])
      = Inr (\<lparr>hit_level = ''MainMemory'', total_cycles = 101\<rparr>, \<lparr>sets = [[\<lparr>valid = True, dirty = False, tag = 0\<rparr>], [\<lparr>valid = False, dirty = False, tag = 0\<rparr>]],
          policy = [[0 :: nat], [0]], hits = 0, misses = 1, evictions = 0\<rparr>, [(kLoad, 0)])
   \<and> dims_ok (L1_params 2 1 4) (\<lparr>sets = [[\<lparr>valid = True, dirty = False, tag = 0\<rparr>], [\<lparr>valid = False, dirty = False, tag = 0\<rparr>]],
          policy = [[0 :: nat], [0]], hits = 0, misses = 1, evictions = 0\<rparr>)
            \<and> tag_lookup (Ways (L1_params 2 1 4)) (sets (\<lparr>sets = [[\<lparr>valid = True, dirty = False, tag = 0\<rparr>], [\<lparr>valid = False, dirty = False, tag = 0\<rparr>]],
          policy = [[0 :: nat], [0]], hits = 0, misses = 1, evictions = 0\<rparr>) ! unat (set_idx_of (L1_params 2 1 4) 0)) (tag_of (L1_params 2 1 4) 0) = Some 0
            \<and> victim_ok (L1_params 2 1 4) (\<lparr>sets = [[\<lparr>valid = True, dirty = False, tag = 0\<rparr>], [\<lparr>valid = False, dirty = False, tag = 0\<rparr>]],
          policy = [[0 :: nat], [0]], hits = 0, misses = 1, evictions = 0\<rparr>) (set_idx_of (L1_params 2 1 4) 0) \<and> (Probe_Load ''MainMemory'' 100) 8 [(kLoad, 0)] = Inr (\<lparr>hit_level = ''MainMemory'', total_cycles = 100\<rparr>, [(kLoad, 0), (kLoad, 8)])
            \<and> (\<forall>ea. \<exists>res' n'. (Probe_Store ''MainMemory'' 100) ea [(kLoad, 0), (kLoad, 8)] = Inr (res', n'))
   \<and> (\<exists>c2 n2. Cache_Load (L1_params 2 1 4) (Probe_Load ''MainMemory'' 100) (Probe_Store ''MainMemory'' 100) 8 (\<lparr>sets = [[\<lparr>valid = True, dirty = False, tag = 0\<rparr>], [\<lparr>valid = False, dirty = False, tag = 0\<rparr>]],
          policy = [[0 :: nat], [0]], hits = 0, misses = 1, evictions = 0\<rparr>, [(kLoad, 0)])
                    = Inr (\<lparr>hit_level = ''MainMemory'', total_cycles = 100\<rparr>\<lparr>total_cycles := total_cycles \<lparr>hit_level = ''MainMemory'', total_cycles = 100\<rparr> + HitLatency (L1_params 2 1 4)\<rparr>, c2, n2)
                 \<and> dims_ok (L1_params 2 1 4) c2
                 \<and> tag_lookup (Ways (L1_params 2 1 4)) (sets c2 ! unat (set_idx_of (L1_params 2 1 4) 0)) (tag_of (L1_params 2 1 4) 0) = None
                 \<and> tag_lookup (Ways (L1_params 2 1 4)) (sets c2 ! unat (set_idx_of (L1_params 2 1 4) 0)) (tag_of (L1_params 2 1 4) 8) = Some 0
                 \<and> misses c2 = misses (\<lparr>sets = [[\<lparr>valid = True, dirty = False, tag = 0\<rparr>], [\<lparr>valid = False, dirty = False, tag = 0\<rparr>]],
          policy = [[0 :: nat], [0]], hits = 0, misses = 1, evictions = 0\<rparr>) + 1)
   \<and> Cache_Load (L1_params 2 1 4) (Probe_Load ''MainMemory'' 100) (Probe_Store ''MainMemory'' 100) 8 (\<lparr>sets = [[\<lparr>valid = True, dirty = False, tag = 0\<rparr>], [\<lparr>valid = False, dirty = False, tag = 0\<rparr>]],
          policy = [[0 :: nat], [0]], hits = 0, misses = 1, evictions = 0\<rparr>, [(kLoad, 0)])
      = Inr (\<lparr>hit_level = ''MainMemory'', total_cycles = 101\<rparr>, \<lparr>sets = [[\<lparr>valid = True, dirty = False, tag = 1\<rparr>], [\<lparr>valid = False, dirty = False, tag = 0\<rparr>]],
          policy = [[0 :: nat], [0]], hits = 0, misses = 2, evictions = 0\<rparr>, [(kLoad, 0), (kLoad, 8)])
   \<and> tag_lookup (Ways (L1_params 2 1 4)) (sets (\<lparr>sets = [[\<lparr>valid = True, dirty = False, tag = 1\<rparr>], [\<lparr>valid = False, dirty = False, tag = 0\<rparr>]],
          policy = [[0 :: nat], [0]], hits = 0, misses = 2, evictions = 0\<rparr>) ! unat (set_idx_of (L1_params 2 1 4) 0)) (tag_of (L1_params 2 1 4) 0) = None"
proof -
  have a: "Ways (L1_params 2 1 4) = 1" and a': "Sets (L1_params 2 1 4) = 2" and b: "divisors_ok (L1_params 2 1 4)"
    and c: "set_idx_of (L1_params 2 1 4) 8 = set_idx_of (L1_params 2 1 4) 0" and d: "tag_of (L1_params 2 1 4) 8 \<noteq> tag_of (L1_params 2 1 4) 0"
    by code_simp+
  have h1a: "dims_ok (L1_params 2 1 4) (Cache_init (L1_params 2 1 4))" and h1b: "victim_ok (L1_params 2 1 4) (Cache_init (L1_params 2 1 4)) (set_idx_of (L1_params 2 1 4) 0)"
    by code_simp+
  have h1c: "(Probe_Load ''MainMemory'' 100) 0 [] = Inr (\<lparr>hit_level = ''MainMemory'', total_cycles = 100\<rparr>, [(kLoad, 0)])"
    by (simp add: Probe_Load_def)
  have h1d: "\<forall>ea. \<exists>res' n'. (Probe_Store ''MainMemory'' 100) ea [(kLoad, 0)] = Inr (res', n')"
    by (simp add: Probe_Store_def)
  have h1: "dims_ok (L1_params 2 1 4) (Cache_init (L1_params 2 1 4)) \<and> victim_ok (L1_params 2 1 4) (Cache_init (L1_params 2 1 4)) (set_idx_of (L1_params 2 1 4) 0) \<and> (Probe_Load ''MainMemory'' 100) 0 [] = Inr (\<lparr>hit_level = ''MainMemory'', total_cycles = 100\<rparr>, [(kLoad, 0)])
            \<and> (\<forall>ea. \<exists>res' n'. (Probe_Store ''MainMemory'' 100) ea [(kLoad, 0)] = Inr (res', n'))"
    using h1a h1b h1c h1d by (intro conjI) assumption+
  have e: "Cache_Load (L1_params 2 1 4) (Probe_Load ''MainMemory'' 100) (Probe_Store ''MainMemory'' 100) 0 ((Cache_init (L1_params 2 1 4)), [])
      = Inr (\<lparr>hit_level = ''MainMemory'', total_cycles = 101\<rparr>, \<lparr>sets = [[\<lparr>valid = True, dirty = False, tag = 0\<rparr>], [\<lparr>valid = False, dirty = False, tag = 0\<rparr>]],
          policy = [[0 :: nat], [0]], hits = 0, misses = 1, evictions = 0\<rparr>, [(kLoad, 0)])"
    by code_simp
  have h2a: "dims_ok (L1_params 2 1 4) (\<lparr>sets = [[\<lparr>valid = True, dirty = False, tag = 0\<rparr>], [\<lparr>valid = False, dirty = False, tag = 0\<rparr>]],
          policy = [[0 :: nat], [0]], hits = 0, misses = 1, evictions = 0\<rparr>)"
    and h2b: "tag_lookup (Ways (L1_params 2 1 4)) (sets (\<lparr>sets = [[\<lparr>valid = True, dirty = False, tag = 0\<rparr>], [\<lparr>valid = False, dirty = False, tag = 0\<rparr>]],
          policy = [[0 :: nat], [0]], hits = 0, misses = 1, evictions = 0\<rparr>) ! unat (set_idx_of (L1_params 2 1 4) 0)) (tag_of (L1_params 2 1 4) 0) = Some 0"
    and h2c: "victim_ok (L1_params 2 1 4) (\<lparr>sets = [[\<lparr>valid = True, dirty = False, tag = 0\<rparr>], [\<lparr>valid = False, dirty = False, tag = 0\<rparr>]],
          policy = [[0 :: nat], [0]], hits = 0, misses = 1, evictions = 0\<rparr>) (set_idx_of (L1_params 2 1 4) 0)"
    by code_simp+
  have h2d: "(Probe_Load ''MainMemory'' 100) 8 [(kLoad, 0)] = Inr (\<lparr>hit_level = ''MainMemory'', total_cycles = 100\<rparr>, [(kLoad, 0), (kLoad, 8)])"
    by (simp add: Probe_Load_def)
  have h2e: "\<forall>ea. \<exists>res' n'. (Probe_Store ''MainMemory'' 100) ea [(kLoad, 0), (kLoad, 8)] = Inr (res', n')"
    by (simp add: Probe_Store_def)
  have h2: "dims_ok (L1_params 2 1 4) (\<lparr>sets = [[\<lparr>valid = True, dirty = False, tag = 0\<rparr>], [\<lparr>valid = False, dirty = False, tag = 0\<rparr>]],
          policy = [[0 :: nat], [0]], hits = 0, misses = 1, evictions = 0\<rparr>)
            \<and> tag_lookup (Ways (L1_params 2 1 4)) (sets (\<lparr>sets = [[\<lparr>valid = True, dirty = False, tag = 0\<rparr>], [\<lparr>valid = False, dirty = False, tag = 0\<rparr>]],
          policy = [[0 :: nat], [0]], hits = 0, misses = 1, evictions = 0\<rparr>) ! unat (set_idx_of (L1_params 2 1 4) 0)) (tag_of (L1_params 2 1 4) 0) = Some 0
            \<and> victim_ok (L1_params 2 1 4) (\<lparr>sets = [[\<lparr>valid = True, dirty = False, tag = 0\<rparr>], [\<lparr>valid = False, dirty = False, tag = 0\<rparr>]],
          policy = [[0 :: nat], [0]], hits = 0, misses = 1, evictions = 0\<rparr>) (set_idx_of (L1_params 2 1 4) 0) \<and> (Probe_Load ''MainMemory'' 100) 8 [(kLoad, 0)] = Inr (\<lparr>hit_level = ''MainMemory'', total_cycles = 100\<rparr>, [(kLoad, 0), (kLoad, 8)])
            \<and> (\<forall>ea. \<exists>res' n'. (Probe_Store ''MainMemory'' 100) ea [(kLoad, 0), (kLoad, 8)] = Inr (res', n'))"
    using h2a h2b h2c h2d h2e by (intro conjI) assumption+
  have f: "Cache_Load (L1_params 2 1 4) (Probe_Load ''MainMemory'' 100) (Probe_Store ''MainMemory'' 100) 8 (\<lparr>sets = [[\<lparr>valid = True, dirty = False, tag = 0\<rparr>], [\<lparr>valid = False, dirty = False, tag = 0\<rparr>]],
          policy = [[0 :: nat], [0]], hits = 0, misses = 1, evictions = 0\<rparr>, [(kLoad, 0)])
      = Inr (\<lparr>hit_level = ''MainMemory'', total_cycles = 101\<rparr>, \<lparr>sets = [[\<lparr>valid = True, dirty = False, tag = 1\<rparr>], [\<lparr>valid = False, dirty = False, tag = 0\<rparr>]],
          policy = [[0 :: nat], [0]], hits = 0, misses = 2, evictions = 0\<rparr>, [(kLoad, 0), (kLoad, 8)])"
    by code_simp
  have g: "tag_lookup (Ways (L1_params 2 1 4)) (sets (\<lparr>sets = [[\<lparr>valid = True, dirty = False, tag = 1\<rparr>], [\<lparr>valid = False, dirty = False, tag = 0\<rparr>]],
          policy = [[0 :: nat], [0]], hits = 0, misses = 2, evictions = 0\<rparr>) ! unat (set_idx_of (L1_params 2 1 4) 0)) (tag_of (L1_params 2 1 4) 0) = None"
    by code_simp
  from one_way_set_evicts_on_second_tag [where next_Load = "(Probe_Load ''MainMemory'' 100)" and next_Store = "(Probe_Store ''MainMemory'' 100)",
         OF a b c d, THEN conjunct1, THEN mp, OF h1]
  have k1: "(\<exists>r1 c1 n1. Cache_Load (L1_params 2 1 4) (Probe_Load ''MainMemory'' 100) (Probe_Store ''MainMemory'' 100) 0 ((Cache_init (L1_params 2 1 4)), []) = Inr (r1, c1, n1)
                 \<and> dims_ok (L1_params 2 1 4) c1
                 \<and> tag_lookup (Ways (L1_params 2 1 4)) (sets c1 ! unat (set_idx_of (L1_params 2 1 4) 0)) (tag_of (L1_params 2 1 4) 0) = Some 0
                 \<and> tag_lookup (Ways (L1_params 2 1 4)) (sets c1 ! unat (set_idx_of (L1_params 2 1 4) 0)) (tag_of (L1_params 2 1 4) 8) = None)" .
  from one_way_set_evicts_on_second_tag [where next_Load = "(Probe_Load ''MainMemory'' 100)" and next_Store = "(Probe_Store ''MainMemory'' 100)",
         OF a b c d, THEN conjunct2, THEN mp, OF h2]
  have k2: "(\<exists>c2 n2. Cache_Load (L1_params 2 1 4) (Probe_Load ''MainMemory'' 100) (Probe_Store ''MainMemory'' 100) 8 (\<lparr>sets = [[\<lparr>valid = True, dirty = False, tag = 0\<rparr>], [\<lparr>valid = False, dirty = False, tag = 0\<rparr>]],
          policy = [[0 :: nat], [0]], hits = 0, misses = 1, evictions = 0\<rparr>, [(kLoad, 0)])
                    = Inr (\<lparr>hit_level = ''MainMemory'', total_cycles = 100\<rparr>\<lparr>total_cycles := total_cycles \<lparr>hit_level = ''MainMemory'', total_cycles = 100\<rparr> + HitLatency (L1_params 2 1 4)\<rparr>, c2, n2)
                 \<and> dims_ok (L1_params 2 1 4) c2
                 \<and> tag_lookup (Ways (L1_params 2 1 4)) (sets c2 ! unat (set_idx_of (L1_params 2 1 4) 0)) (tag_of (L1_params 2 1 4) 0) = None
                 \<and> tag_lookup (Ways (L1_params 2 1 4)) (sets c2 ! unat (set_idx_of (L1_params 2 1 4) 0)) (tag_of (L1_params 2 1 4) 8) = Some 0
                 \<and> misses c2 = misses (\<lparr>sets = [[\<lparr>valid = True, dirty = False, tag = 0\<rparr>], [\<lparr>valid = False, dirty = False, tag = 0\<rparr>]],
          policy = [[0 :: nat], [0]], hits = 0, misses = 1, evictions = 0\<rparr>) + 1)" .
  show ?thesis using a a' b c d h1a h1b h1c h1d k1 e h2a h2b h2c h2d h2e k2 f g
    by (intro conjI) assumption+
qed

section \<open>The write-back of a dirty line\<close>

lemma nested_update_other:
  assumes "s \<noteq> i \<or> w \<noteq> v"
  shows "xss[i := (xss ! i)[v := x]] ! s ! w = xss ! s ! w"
proof (cases "i < length xss")
  case False
  then show ?thesis by (simp add: list_update_beyond)
next
  case True
  show ?thesis
  proof (cases "s = i")
    case False
    then show ?thesis by simp
  next
    case s: True
    with assms have "w \<noteq> v" by simp
    with s True show ?thesis by simp
  qed
qed

lemma nested_update_same:
  assumes "i < length xss" "v < length (xss ! i)"
  shows "xss[i := (xss ! i)[v := x]] ! i ! v = x"
  using assms by simp

lemma dirty_update_keeps:
  fixes lss :: "Line list list"
  defines "lss' i w' \<equiv> lss[i := (lss ! i)[w' := (lss ! i ! w')\<lparr>dirty := True\<rparr>]]"
  shows "valid (lss' i w' ! s ! w) = valid (lss ! s ! w)"
    and "tag (lss' i w' ! s ! w) = tag (lss ! s ! w)"
    and "dirty (lss ! s ! w) \<Longrightarrow> dirty (lss' i w' ! s ! w)"
proof -
  have "lss' i w' ! s ! w = lss ! s ! w \<or> lss' i w' ! s ! w = (lss ! s ! w)\<lparr>dirty := True\<rparr>"
  proof (cases "s = i \<and> w = w'")
    case False
    then have "s \<noteq> i \<or> w \<noteq> w'" by blast
    then show ?thesis by (simp add: lss'_def nested_update_other)
  next
    case True
    show ?thesis
    proof (cases "i < length lss \<and> w' < length (lss ! i)")
      case inr: True
      then show ?thesis using True by (simp add: lss'_def)
    next
      case False
      then have "lss' i w' = lss"
        by (auto simp: lss'_def list_update_beyond list_update_same_conv not_less)
      then show ?thesis by simp
    qed
  qed
  then show "valid (lss' i w' ! s ! w) = valid (lss ! s ! w)"
    and "tag (lss' i w' ! s ! w) = tag (lss ! s ! w)"
    and "dirty (lss ! s ! w) \<Longrightarrow> dirty (lss' i w' ! s ! w)"
    by auto
qed

lemma resident_dirty_same_sets:
  "resident_dirty P A w c \<Longrightarrow> sets c' = sets c \<Longrightarrow> resident_dirty P A w c'"
  by (simp add: resident_dirty_def)

lemma resident_dirty_dirty_update:
  assumes "resident_dirty P A w c"
    and "sets c' = (sets c)[i := (sets c ! i)[w' := (sets c ! i ! w')\<lparr>dirty := True\<rparr>]]"
  shows "resident_dirty P A w c'"
  using assms(1) unfolding resident_dirty_def assms(2)
  by (simp add: dirty_update_keeps)

lemma mark_dirty_cases:
  "sets (mark_dirty P set_idx t c) = sets c
   \<or> (\<exists>w'. sets (mark_dirty P set_idx t c)
         = (sets c)[unat set_idx := (sets c ! unat set_idx)[w' := (sets c ! unat set_idx ! w')\<lparr>dirty := True\<rparr>]])"
proof (cases "tag_lookup (Ways P) (sets c ! unat set_idx) t")
  case None
  then show ?thesis by (simp add: mark_dirty_def)
next
  case (Some a)
  then have "sets (mark_dirty P set_idx t c)
         = (sets c)[unat set_idx := (sets c ! unat set_idx)[a := (sets c ! unat set_idx ! a)\<lparr>dirty := True\<rparr>]]"
    by (simp add: mark_dirty_def)
  then show ?thesis by blast
qed

lemma mark_dirty_evictions: "evictions (mark_dirty P set_idx t c) = evictions c"
  by (cases "tag_lookup (Ways P) (sets c ! unat set_idx) t") (simp_all add: mark_dirty_def)

lemma resident_dirty_mark_dirty:
  "resident_dirty P A w c \<Longrightarrow> resident_dirty P A w (mark_dirty P set_idx t c)"
  using mark_dirty_cases [of P set_idx t c]
  by (auto intro: resident_dirty_same_sets resident_dirty_dirty_update)

lemma mark_dirty_tag:
  "tag (sets (mark_dirty P set_idx t c) ! s ! w) = tag (sets c ! s ! w)"
  using mark_dirty_cases [of P set_idx t c] by (auto simp: dirty_update_keeps)

text \<open>A fill either leaves a dirty resident line alone, or it is the victim and is written back.\<close>

lemma Fill_resident_dirty:
  assumes rd: "resident_dirty P A w c"
    and inr: "unat (set_idx_of P A) < length (sets c)" "length (sets c ! unat (set_idx_of P A)) = Ways P"
    and fill: "Fill P next_Store set_idx t (c, n) = Inr (c', n')"
  shows "resident_dirty P A w c'
       \<or> (set_idx = set_idx_of P A
          \<and> (\<exists>res. next_Store (evict_addr P (tag_of P A) (set_idx_of P A)) n = Inr (res, n'))
          \<and> evictions c' = evictions c + 1
          \<and> tag (sets c' ! unat (set_idx_of P A) ! w) = t)"
proof -
  let ?sA = "set_idx_of P A"
  from rd have w: "w < Ways P" and line: "valid (sets c ! unat ?sA ! w)" "dirty (sets c ! unat ?sA ! w)"
    "tag (sets c ! unat ?sA ! w) = tag_of P A"
    by (simp_all add: resident_dirty_def)
  from Fill_Inr_summary [OF fill] obtain v where v: "v < Ways P"
    and s: "sets c' = (sets c)[unat set_idx :=
              (sets c ! unat set_idx)[v := \<lparr>valid = True, dirty = False, tag = t\<rparr>]]"
    and how: "first_invalid (Ways P) (sets c ! unat set_idx) = Some v \<and> n' = n
               \<and> evictions c' = evictions c
             \<or> first_invalid (Ways P) (sets c ! unat set_idx) = None
               \<and> fst (GetVictim (ReplacePolicy P) (unat set_idx) (policy c)) = v
               \<and> (\<not> (valid (sets c ! unat set_idx ! v) \<and> dirty (sets c ! unat set_idx ! v))
                     \<and> n' = n \<and> evictions c' = evictions c
                   \<or> valid (sets c ! unat set_idx ! v) \<and> dirty (sets c ! unat set_idx ! v)
                     \<and> evictions c' = evictions c + 1
                     \<and> (\<exists>res. next_Store (evict_addr P (tag (sets c ! unat set_idx ! v)) set_idx) n
                                = Inr (res, n')))"
    by blast
  show ?thesis
  proof (cases "unat ?sA = unat set_idx \<and> w = v")
    case False
    then have "unat ?sA \<noteq> unat set_idx \<or> w \<noteq> v" by blast
    from nested_update_other [OF this] have "sets c' ! unat ?sA ! w = sets c ! unat ?sA ! w"
      by (simp add: s)
    with rd have "resident_dirty P A w c'" by (simp add: resident_dirty_def)
    then show ?thesis ..
  next
    case True
    then have eq: "set_idx = ?sA" and wv: "v = w" by (simp_all add: word_unat_eq_iff)
    from how line have wb: "evictions c' = evictions c + 1"
      "\<exists>res. next_Store (evict_addr P (tag_of P A) ?sA) n = Inr (res, n')"
      unfolding eq wv by (auto simp: first_invalid_Some)
    have "sets c' ! unat ?sA ! w = \<lparr>valid = True, dirty = False, tag = t\<rparr>"
      using inr w by (simp add: s eq wv)
    with wb eq show ?thesis by simp
  qed
qed

lemma Cache_Store_resident_dirty:
  assumes dims: "dims_ok P c" and ret: "Cache_Store P next_Load next_Store A (c, n) = Inr (r, c', n')"
  shows "\<exists>w. resident_dirty P A w c'"
  using ret
proof (cases rule: Cache_Store_InrE)
  case (hit w)
  note d = dims_ok_set [OF dims divisors_ok_Sets [OF hit(1)], of A]
  from hit(2) have w: "w < Ways P" "valid (sets c ! unat (set_idx_of P A) ! w)"
    "tag (sets c ! unat (set_idx_of P A) ! w) = tag_of P A"
    by (simp_all add: tag_lookup_Some)
  with d have "resident_dirty P A w c'" by (simp add: resident_dirty_def hit(4))
  then show ?thesis ..
next
  case (miss res n1 c2)
  let ?s = "set_idx_of P A" and ?t = "tag_of P A"
  note d = dims_ok_set [OF dims divisors_ok_Sets [OF miss(1)], of A]
  from Fill_Inr_summary [OF miss(5)] obtain v where v: "v < Ways P"
    and sets2: "sets c2 = (sets c)[unat ?s := (sets c ! unat ?s)[v := \<lparr>valid = True, dirty = False, tag = ?t\<rparr>]]"
    by auto
  have len2: "unat ?s < length (sets c2)" using d(1) by (simp add: sets2)
  have set2: "sets c2 ! unat ?s = (sets c ! unat ?s)[v := \<lparr>valid = True, dirty = False, tag = ?t\<rparr>]"
    using d(1) by (simp add: sets2)
  from tag_lookup_installed [OF v d(2), of ?t] obtain w where w: "w < Ways P"
    and lk: "tag_lookup (Ways P) (sets c2 ! unat ?s) ?t = Some w"
    by (auto simp: set2)
  have l2: "length (sets c2 ! unat ?s) = Ways P" using d(2) by (simp add: set2)
  from mark_dirty_line(2-4) [OF len2 lk l2] w have "resident_dirty P A w c'"
    by (simp add: resident_dirty_def miss(6))
  then show ?thesis ..
qed

lemma resident_dirty_miss_other_tag:
  assumes "resident_dirty P A w c" "set_idx_of P X = set_idx_of P A"
    and "tag_lookup (Ways P) (sets c ! unat (set_idx_of P X)) (tag_of P X) = None"
  shows "tag_of P X \<noteq> tag_of P A"
  using assms by (auto simp: resident_dirty_def tag_lookup_None)

lemma resident_dirty_access:
  assumes dims: "dims_ok P c" and rd: "resident_dirty P A w c"
    and ret: "Cache_Load P next_Load next_Store X (c, n) = Inr (r, c', n')
            \<or> Cache_Store P next_Load next_Store X (c, n) = Inr (r, c', n')"
  shows "resident_dirty P A w c'
       \<or> (\<exists>res m res'. next_Load X n = Inr (res, m)
            \<and> next_Store (evict_addr P (tag_of P A) (set_idx_of P A)) m = Inr (res', n')
            \<and> evictions c' = evictions c + 1
            \<and> set_idx_of P X = set_idx_of P A \<and> tag_of P X \<noteq> tag_of P A
            \<and> tag (sets c' ! unat (set_idx_of P A) ! w) = tag_of P X)"
  using ret
proof
  assume "Cache_Load P next_Load next_Store X (c, n) = Inr (r, c', n')"
  then show ?thesis
  proof (cases rule: Cache_Load_InrE)
    case (hit w')
    with rd have "resident_dirty P A w c'" by (simp add: resident_dirty_def)
    then show ?thesis ..
  next
    case (miss res m)
    note d = dims_ok_set [OF dims divisors_ok_Sets [OF miss(1)], of A]
    have rd1: "resident_dirty P A w (c\<lparr>misses := misses c + 1\<rparr>)"
      using rd by (simp add: resident_dirty_def)
    from Fill_resident_dirty [OF rd1 _ _ miss(5)] d
    have "resident_dirty P A w c'
       \<or> (set_idx_of P X = set_idx_of P A
          \<and> (\<exists>res'. next_Store (evict_addr P (tag_of P A) (set_idx_of P A)) m = Inr (res', n'))
          \<and> evictions c' = evictions c + 1
          \<and> tag (sets c' ! unat (set_idx_of P A) ! w) = tag_of P X)"
      by simp
    then show ?thesis
    proof
      assume "resident_dirty P A w c'"
      then show ?thesis ..
    next
      assume e: "set_idx_of P X = set_idx_of P A
          \<and> (\<exists>res'. next_Store (evict_addr P (tag_of P A) (set_idx_of P A)) m = Inr (res', n'))
          \<and> evictions c' = evictions c + 1
          \<and> tag (sets c' ! unat (set_idx_of P A) ! w) = tag_of P X"
      then have "tag_of P X \<noteq> tag_of P A"
        using resident_dirty_miss_other_tag [OF rd _ miss(2)] by simp
      with e miss(3) show ?thesis by blast
    qed
  qed
next
  assume "Cache_Store P next_Load next_Store X (c, n) = Inr (r, c', n')"
  then show ?thesis
  proof (cases rule: Cache_Store_InrE)
    case (hit w')
    from resident_dirty_dirty_update [OF rd, of c' "unat (set_idx_of P X)" w'] hit(4)
    have "resident_dirty P A w c'" by simp
    then show ?thesis ..
  next
    case (miss res m c2)
    note d = dims_ok_set [OF dims divisors_ok_Sets [OF miss(1)], of A]
    have rd1: "resident_dirty P A w (c\<lparr>misses := misses c + 1\<rparr>)"
      using rd by (simp add: resident_dirty_def)
    from Fill_resident_dirty [OF rd1 _ _ miss(5)] d
    have "resident_dirty P A w c2
       \<or> (set_idx_of P X = set_idx_of P A
          \<and> (\<exists>res'. next_Store (evict_addr P (tag_of P A) (set_idx_of P A)) m = Inr (res', n'))
          \<and> evictions c2 = evictions c + 1
          \<and> tag (sets c2 ! unat (set_idx_of P A) ! w) = tag_of P X)"
      by simp
    then show ?thesis
    proof
      assume "resident_dirty P A w c2"
      then have "resident_dirty P A w c'" unfolding miss(6) by (rule resident_dirty_mark_dirty)
      then show ?thesis ..
    next
      assume e: "set_idx_of P X = set_idx_of P A
          \<and> (\<exists>res'. next_Store (evict_addr P (tag_of P A) (set_idx_of P A)) m = Inr (res', n'))
          \<and> evictions c2 = evictions c + 1
          \<and> tag (sets c2 ! unat (set_idx_of P A) ! w) = tag_of P X"
      then have "tag_of P X \<noteq> tag_of P A"
        using resident_dirty_miss_other_tag [OF rd _ miss(2)] by simp
      moreover have "evictions c' = evictions c + 1"
        "tag (sets c' ! unat (set_idx_of P A) ! w) = tag_of P X"
        using e by (simp_all add: miss(6) mark_dirty_evictions mark_dirty_tag)
      ultimately show ?thesis using e miss(3) by blast
    qed
  qed
qed

text \<open>The invariant of a level, and where the write-backs of an access go.\<close>

lemma tags_rebuild_nth:
  "tags_rebuild P c \<longleftrightarrow>
     (\<forall>s<length (sets c). \<forall>w<length (sets c ! s). line_rebuilds P s (sets c ! s ! w))"
  by (auto simp: tags_rebuild_def list_all_iff all_set_conv_all_nth)

lemma nested_update_length: "length (xss[i := (xss ! i)[v := x]] ! s) = length (xss ! s)"
proof (cases "i < length xss")
  case False
  then show ?thesis by (simp add: list_update_beyond)
next
  case True
  then show ?thesis by (cases "s = i") simp_all
qed

lemma decompose_evict_addr:
  assumes "BlockSize P \<noteq> 0" "Sets P \<noteq> 0" "unat (BlockSize P) * unat (Sets P) < 2 ^ 64"
  shows "set_idx_of P (evict_addr P (tag_of P addr) (set_idx_of P addr)) = set_idx_of P addr"
    and "tag_of P (evict_addr P (tag_of P addr) (set_idx_of P addr)) = tag_of P addr"
proof -
  let ?B = "unat (BlockSize P)" and ?S = "unat (Sets P)" and ?a = "unat addr"
  let ?e = "evict_addr P (tag_of P addr) (set_idx_of P addr)"
  have B: "0 < ?B" using assms by (simp add: unat_gt_0)
  have e: "unat ?e = (?a div ?B) * ?B" by (rule unat_evict_addr(1) [OF assms])
  have ediv: "unat ?e div ?B = ?a div ?B" using e B by simp
  have "unat (set_idx_of P ?e) = unat (set_idx_of P addr)"
    by (simp add: unat_decompose(1) [OF assms] ediv)
  then show "set_idx_of P ?e = set_idx_of P addr" by (simp only: word_unat_eq_iff)
  have "unat (tag_of P ?e) = unat (tag_of P addr)"
    by (simp add: unat_decompose(2) [OF assms] div_mult2_eq ediv)
  then show "tag_of P ?e = tag_of P addr" by (simp only: word_unat_eq_iff)
qed

lemma line_rebuilds_installed:
  assumes "BlockSize P \<noteq> 0" "Sets P \<noteq> 0" "unat (BlockSize P) * unat (Sets P) < 2 ^ 64"
  shows "line_rebuilds P (unat (set_idx_of P addr)) \<lparr>valid = True, dirty = d, tag = tag_of P addr\<rparr>"
  using decompose_evict_addr [OF assms, of addr] by (simp add: line_rebuilds_def)

lemma rebuilt_addr_differs:
  assumes "valid l" "line_rebuilds P (unat s1) l"
    and "set_idx_of P (evict_addr P t2 s2) = s2" "tag_of P (evict_addr P t2 s2) = t2"
    and "s1 \<noteq> s2 \<or> tag l \<noteq> t2"
  shows "evict_addr P (tag l) s1 \<noteq> evict_addr P t2 s2"
proof
  assume eq: "evict_addr P (tag l) s1 = evict_addr P t2 s2"
  from assms(1,2) have "set_idx_of P (evict_addr P (tag l) s1) = s1" "tag_of P (evict_addr P (tag l) s1) = tag l"
    by (simp_all add: line_rebuilds_def)
  with eq assms(3,4) have "s1 = s2" "tag l = t2" by simp_all
  with assms(5) show False by simp
qed

lemma tags_rebuild_same_sets: "tags_rebuild P c \<Longrightarrow> sets c' = sets c \<Longrightarrow> tags_rebuild P c'"
  by (simp add: tags_rebuild_def)

lemma tags_rebuild_dirty_update:
  assumes "tags_rebuild P c"
    and "sets c' = (sets c)[i := (sets c ! i)[w' := (sets c ! i ! w')\<lparr>dirty := True\<rparr>]]"
  shows "tags_rebuild P c'"
  unfolding tags_rebuild_nth
proof (intro allI impI)
  fix s w
  assume "s < length (sets c')" "w < length (sets c' ! s)"
  then have s: "s < length (sets c)" and w: "w < length (sets c ! s)"
    by (simp_all add: assms(2) nested_update_length)
  from assms(1) s w have "line_rebuilds P s (sets c ! s ! w)" by (simp add: tags_rebuild_nth)
  then show "line_rebuilds P s (sets c' ! s ! w)"
    unfolding line_rebuilds_def assms(2) by (simp add: dirty_update_keeps)
qed

lemma tags_rebuild_install:
  assumes "tags_rebuild P c"
    and "sets c' = (sets c)[i := (sets c ! i)[v := l]]"
    and "line_rebuilds P i l"
  shows "tags_rebuild P c'"
  unfolding tags_rebuild_nth
proof (intro allI impI)
  fix s w
  assume "s < length (sets c')" "w < length (sets c' ! s)"
  then have s: "s < length (sets c)" and w: "w < length (sets c ! s)"
    by (simp_all add: assms(2) nested_update_length)
  from assms(1) s w have old: "line_rebuilds P s (sets c ! s ! w)" by (simp add: tags_rebuild_nth)
  show "line_rebuilds P s (sets c' ! s ! w)"
  proof (cases "s = i \<and> w = v")
    case True
    with s w assms(3) show ?thesis by (simp add: assms(2))
  next
    case False
    then have "s \<noteq> i \<or> w \<noteq> v" by blast
    with old show ?thesis by (simp add: assms(2) nested_update_other)
  qed
qed

lemma tags_rebuild_mark_dirty:
  "tags_rebuild P c \<Longrightarrow> tags_rebuild P (mark_dirty P set_idx t c)"
  using mark_dirty_cases [of P set_idx t c]
  by (auto intro: tags_rebuild_same_sets tags_rebuild_dirty_update)

lemma Fill_rebuild:
  assumes cfg: "BlockSize P \<noteq> 0" "Sets P \<noteq> 0" "unat (BlockSize P) * unat (Sets P) < 2 ^ 64"
    and "tags_rebuild P c"
    and "Fill P next_Store (set_idx_of P addr) (tag_of P addr) (c, n) = Inr (c', n')"
  shows "tags_rebuild P c'"
proof -
  from Fill_Inr_summary [OF assms(5)] obtain v where
    "sets c' = (sets c)[unat (set_idx_of P addr) :=
       (sets c ! unat (set_idx_of P addr))[v := \<lparr>valid = True, dirty = False, tag = tag_of P addr\<rparr>]]"
    by blast
  from tags_rebuild_install [OF assms(4) this line_rebuilds_installed [OF cfg]] show ?thesis .
qed

lemma Cache_Load_rebuild:
  assumes cfg: "BlockSize P \<noteq> 0" "Sets P \<noteq> 0" "unat (BlockSize P) * unat (Sets P) < 2 ^ 64"
    and "tags_rebuild P c"
    and "Cache_Load P next_Load next_Store addr (c, n) = Inr (r, c', n')"
  shows "tags_rebuild P c'"
  using assms(5)
proof (cases rule: Cache_Load_InrE)
  case (hit w)
  with assms(4) show ?thesis by (simp add: tags_rebuild_def)
next
  case (miss res n1)
  have "tags_rebuild P (c\<lparr>misses := misses c + 1\<rparr>)" using assms(4) by (simp add: tags_rebuild_def)
  from Fill_rebuild [OF cfg this miss(5)] show ?thesis .
qed

lemma Cache_Store_rebuild:
  assumes cfg: "BlockSize P \<noteq> 0" "Sets P \<noteq> 0" "unat (BlockSize P) * unat (Sets P) < 2 ^ 64"
    and "tags_rebuild P c"
    and "Cache_Store P next_Load next_Store addr (c, n) = Inr (r, c', n')"
  shows "tags_rebuild P c'"
  using assms(5)
proof (cases rule: Cache_Store_InrE)
  case (hit w)
  from tags_rebuild_dirty_update [OF assms(4), of c' "unat (set_idx_of P addr)" w] hit(4)
  show ?thesis by simp
next
  case (miss res n1 c2)
  have "tags_rebuild P (c\<lparr>misses := misses c + 1\<rparr>)" using assms(4) by (simp add: tags_rebuild_def)
  from Fill_rebuild [OF cfg this miss(5)] have "tags_rebuild P c2" .
  then show ?thesis unfolding miss(6) by (rule tags_rebuild_mark_dirty)
qed

lemma Cache_access_inv:
  assumes cfg: "BlockSize P \<noteq> 0" "Sets P \<noteq> 0" "unat (BlockSize P) * unat (Sets P) < 2 ^ 64"
    and inv: "level_inv P c"
    and ret: "Cache_access ty P next_Load next_Store addr (c, n) = Inr (r, c', n')"
  shows "level_inv P c'"
proof (cases ty)
  case kLoad
  with ret have L: "Cache_Load P next_Load next_Store addr (c, n) = Inr (r, c', n')"
    by (simp add: Cache_access_def)
  from inv have "dims_ok P c" "list_all tag_unique_set (sets c)" "tags_rebuild P c"
    by (simp_all add: level_inv_def)
  from Cache_Load_dims [OF this(1) L] Cache_Load_unique [OF this(1,2) L] Cache_Load_rebuild [OF cfg this(3) L]
  show ?thesis by (simp add: level_inv_def)
next
  case kStore
  with ret have L: "Cache_Store P next_Load next_Store addr (c, n) = Inr (r, c', n')"
    by (simp add: Cache_access_def)
  from inv have "dims_ok P c" "list_all tag_unique_set (sets c)" "tags_rebuild P c"
    by (simp_all add: level_inv_def)
  from Cache_Store_dims [OF this(1) L] Cache_Store_unique [OF this(1,2) L] Cache_Store_rebuild [OF cfg this(3) L]
  show ?thesis by (simp add: level_inv_def)
qed

lemma level_inv_misses: "level_inv P (c\<lparr>misses := k\<rparr>) = level_inv P c"
  by (simp add: level_inv_def dims_ok_def tags_rebuild_def)

lemma resident_dirty_misses: "resident_dirty P A w (c\<lparr>misses := k\<rparr>) = resident_dirty P A w c"
  by (simp add: resident_dirty_def)

lemma level_inv_line_rebuilds:
  assumes "level_inv P c" "Sets P \<noteq> 0" "v < Ways P"
  shows "line_rebuilds P (unat (set_idx_of P X)) (sets c ! unat (set_idx_of P X) ! v)"
proof -
  from assms(1) have d: "dims_ok P c" and t: "tags_rebuild P c" by (simp_all add: level_inv_def)
  note r = dims_ok_set [OF d assms(2), of X]
  from t r assms(3) show ?thesis by (simp add: tags_rebuild_nth)
qed

text \<open>The write-back of a valid line other than the line of \<open>A\<close> goes to another address.\<close>

lemma other_victim_other_addr:
  assumes cfg: "BlockSize P \<noteq> 0" "Sets P \<noteq> 0" "unat (BlockSize P) * unat (Sets P) < 2 ^ 64"
    and inv: "level_inv P c"
    and v: "v < Ways P" "valid (sets c ! unat (set_idx_of P X) ! v)"
    and other: "set_idx_of P X \<noteq> set_idx_of P A \<or> tag (sets c ! unat (set_idx_of P X) ! v) \<noteq> tag_of P A"
  shows "evict_addr P (tag (sets c ! unat (set_idx_of P X) ! v)) (set_idx_of P X)
         \<noteq> evict_addr P (tag_of P A) (set_idx_of P A)"
  using rebuilt_addr_differs [OF v(2) level_inv_line_rebuilds [OF inv cfg(2) v(1)]
          decompose_evict_addr [OF cfg, of A] other] .

lemma other_way_other_tag:
  assumes inv: "level_inv P c" and S: "Sets P \<noteq> 0" and rd: "resident_dirty P A w c"
    and v: "v < Ways P" "valid (sets c ! unat (set_idx_of P A) ! v)" "v \<noteq> w"
  shows "tag (sets c ! unat (set_idx_of P A) ! v) \<noteq> tag_of P A"
proof
  assume eq: "tag (sets c ! unat (set_idx_of P A) ! v) = tag_of P A"
  from inv have d: "dims_ok P c" and u: "list_all tag_unique_set (sets c)" by (simp_all add: level_inv_def)
  note r = dims_ok_set [OF d S, of A]
  from u r(1) have "tag_unique_set (sets c ! unat (set_idx_of P A))" by (simp add: list_all_length)
  moreover from rd have "w < Ways P" "valid (sets c ! unat (set_idx_of P A) ! w)"
    "tag (sets c ! unat (set_idx_of P A) ! w) = tag_of P A"
    by (simp_all add: resident_dirty_def)
  ultimately have "v = w" using v(1,2) eq r(2) unfolding tag_unique_set_nth by simp
  with v(3) show False by simp
qed

lemma Fill_step:
  assumes cfg: "BlockSize P \<noteq> 0" "Sets P \<noteq> 0" "unat (BlockSize P) * unat (Sets P) < 2 ^ 64"
    and inv: "level_inv P c" and rd: "resident_dirty P A w c"
    and fill: "Fill P next_Store (set_idx_of P X) t (c, n) = Inr (c', n')"
  shows "resident_dirty P A w c'
           \<and> (n' = n \<or> (\<exists>ea res. ea \<noteq> evict_addr P (tag_of P A) (set_idx_of P A)
                           \<and> next_Store ea n = Inr (res, n')))
       \<or> set_idx_of P X = set_idx_of P A
           \<and> (\<exists>res. next_Store (evict_addr P (tag_of P A) (set_idx_of P A)) n = Inr (res, n'))
           \<and> evictions c' = evictions c + 1
           \<and> tag (sets c' ! unat (set_idx_of P A) ! w) = t"
proof -
  let ?sA = "set_idx_of P A" and ?sX = "set_idx_of P X"
  let ?eA = "evict_addr P (tag_of P A) ?sA"
  from inv have dims: "dims_ok P c" by (simp add: level_inv_def)
  note d = dims_ok_set [OF dims cfg(2), of A]
  from Fill_resident_dirty [OF rd d fill]
  consider (keep) "resident_dirty P A w c'"
    | (evict) "?sX = ?sA"
        "\<exists>res. next_Store ?eA n = Inr (res, n')" "evictions c' = evictions c + 1"
        "tag (sets c' ! unat ?sA ! w) = t"
    by blast
  then show ?thesis
  proof cases
    case evict
    then show ?thesis by blast
  next
    case keep
    from Fill_Inr_summary [OF fill] obtain v where v: "v < Ways P"
      and s: "sets c' = (sets c)[unat ?sX :=
              (sets c ! unat ?sX)[v := \<lparr>valid = True, dirty = False, tag = t\<rparr>]]"
      and how: "n' = n \<or> (valid (sets c ! unat ?sX ! v) \<and> dirty (sets c ! unat ?sX ! v)
                     \<and> (\<exists>res. next_Store (evict_addr P (tag (sets c ! unat ?sX ! v)) ?sX) n = Inr (res, n')))"
      by blast
    from how show ?thesis
    proof
      assume "n' = n"
      with keep show ?thesis by blast
    next
      assume wb: "valid (sets c ! unat ?sX ! v) \<and> dirty (sets c ! unat ?sX ! v)
                     \<and> (\<exists>res. next_Store (evict_addr P (tag (sets c ! unat ?sX ! v)) ?sX) n = Inr (res, n'))"
      show ?thesis
      proof (cases "?sX = ?sA \<and> v = w")
        case True
        \<comment> \<open>the line of \<open>A\<close> was overwritten by a line that is not dirty\<close>
        have "sets c' ! unat ?sA ! w = \<lparr>valid = True, dirty = False, tag = t\<rparr>"
          using d v True by (simp add: s)
        with keep show ?thesis by (simp add: resident_dirty_def)
      next
        case False
        have "?sX \<noteq> ?sA \<or> tag (sets c ! unat ?sX ! v) \<noteq> tag_of P A"
        proof (cases "?sX = ?sA")
          case True
          with False have "v \<noteq> w" by simp
          from other_way_other_tag [OF inv cfg(2) rd v _ this] wb True show ?thesis by simp
        qed simp
        from other_victim_other_addr [OF cfg inv v _ this] wb
        have "evict_addr P (tag (sets c ! unat ?sX ! v)) ?sX \<noteq> ?eA" by simp
        with wb keep show ?thesis by blast
      qed
    qed
  qed
qed

lemma access_step:
  assumes cfg: "BlockSize P \<noteq> 0" "Sets P \<noteq> 0" "unat (BlockSize P) * unat (Sets P) < 2 ^ 64"
    and inv: "level_inv P c" and rd: "resident_dirty P A w c"
    and nL: "next_Load X n = Inr (res, m)"
    and ret: "Cache_access ty P next_Load next_Store X (c, n) = Inr (r, c', n')"
  shows "resident_dirty P A w c'
           \<and> (n' = n \<or> n' = m
               \<or> (\<exists>ea res'. ea \<noteq> evict_addr P (tag_of P A) (set_idx_of P A)
                     \<and> next_Store ea m = Inr (res', n')))
       \<or> \<not> resident_dirty P A w c'
           \<and> (\<exists>res'. next_Store (evict_addr P (tag_of P A) (set_idx_of P A)) m = Inr (res', n'))
           \<and> evictions c' = evictions c + 1
           \<and> set_idx_of P X = set_idx_of P A \<and> tag_of P X \<noteq> tag_of P A
           \<and> tag (sets c' ! unat (set_idx_of P A) ! w) = tag_of P X"
proof -
  have inv1: "level_inv P (c\<lparr>misses := misses c + 1\<rparr>)" using inv by (simp add: level_inv_misses)
  have rd1: "resident_dirty P A w (c\<lparr>misses := misses c + 1\<rparr>)" using rd by (simp add: resident_dirty_misses)
  have after_fill: ?thesis
    if miss: "tag_lookup (Ways P) (sets c ! unat (set_idx_of P X)) (tag_of P X) = None"
      and fill: "Fill P next_Store (set_idx_of P X) (tag_of P X) (c\<lparr>misses := misses c + 1\<rparr>, m) = Inr (c2, n')"
      and fin: "resident_dirty P A w c2 \<Longrightarrow> resident_dirty P A w c'"
        "evictions c' = evictions c2"
        "tag (sets c' ! unat (set_idx_of P A) ! w) = tag (sets c2 ! unat (set_idx_of P A) ! w)"
    for c2
  proof -
    from Fill_step [OF cfg inv1 rd1 fill]
    consider (keep) "resident_dirty P A w c2"
        "n' = m \<or> (\<exists>ea res'. ea \<noteq> evict_addr P (tag_of P A) (set_idx_of P A)
                           \<and> next_Store ea m = Inr (res', n'))"
      | (evict) "set_idx_of P X = set_idx_of P A"
        "\<exists>res'. next_Store (evict_addr P (tag_of P A) (set_idx_of P A)) m = Inr (res', n')"
        "evictions c2 = evictions c + 1"
        "tag (sets c2 ! unat (set_idx_of P A) ! w) = tag_of P X"
      by auto
    then show ?thesis
    proof cases
      case keep
      with fin(1) show ?thesis by blast
    next
      case evict
      have ne: "tag_of P X \<noteq> tag_of P A"
        using resident_dirty_miss_other_tag [OF rd evict(1) miss] .
      with evict(4) fin(3) have "\<not> resident_dirty P A w c'" by (simp add: resident_dirty_def)
      with evict ne fin(2,3) show ?thesis by simp
    qed
  qed
  show ?thesis
  proof (cases ty)
    case kLoad
    with ret have "Cache_Load P next_Load next_Store X (c, n) = Inr (r, c', n')"
      by (simp add: Cache_access_def)
    then show ?thesis
    proof (cases rule: Cache_Load_InrE)
      case (hit w')
      with rd have "resident_dirty P A w c'" by (simp add: resident_dirty_def)
      with hit(5) show ?thesis by blast
    next
      case (miss res0 n1)
      with nL have "n1 = m" by simp
      with miss(5) after_fill [OF miss(2), of c'] show ?thesis by simp
    qed
  next
    case kStore
    with ret have "Cache_Store P next_Load next_Store X (c, n) = Inr (r, c', n')"
      by (simp add: Cache_access_def)
    then show ?thesis
    proof (cases rule: Cache_Store_InrE)
      case (hit w')
      from resident_dirty_dirty_update [OF rd, of c' "unat (set_idx_of P X)" w'] hit(4)
      have "resident_dirty P A w c'" by simp
      with hit(5) show ?thesis by blast
    next
      case (miss res0 n1 c2)
      with nL have n1: "n1 = m" by simp
      show ?thesis
      proof (rule after_fill [OF miss(2), of c2])
        show "Fill P next_Store (set_idx_of P X) (tag_of P X) (c\<lparr>misses := misses c + 1\<rparr>, m) = Inr (c2, n')"
          using miss(5) n1 by simp
        show "resident_dirty P A w c2 \<Longrightarrow> resident_dirty P A w c'"
          unfolding miss(6) by (rule resident_dirty_mark_dirty)
        show "evictions c' = evictions c2" by (simp add: miss(6) mark_dirty_evictions)
        show "tag (sets c' ! unat (set_idx_of P A) ! w) = tag (sets c2 ! unat (set_idx_of P A) ! w)"
          by (simp add: miss(6) mark_dirty_tag)
      qed
    qed
  qed
qed

lemma Store_step:
  assumes cfg: "BlockSize P \<noteq> 0" "Sets P \<noteq> 0" "unat (BlockSize P) * unat (Sets P) < 2 ^ 64"
    and inv: "level_inv P c"
    and nL: "next_Load X n = Inr (res, m)"
    and ret: "Cache_Store P next_Load next_Store X (c, n) = Inr (r, c', n')"
  shows "(\<exists>w. resident_dirty P X w c')
       \<and> (n' = n \<or> n' = m
           \<or> (\<exists>ea res'. ea \<noteq> evict_addr P (tag_of P X) (set_idx_of P X)
                 \<and> next_Store ea m = Inr (res', n')))"
proof -
  from inv have dims: "dims_ok P c" by (simp add: level_inv_def)
  have rdx: "\<exists>w. resident_dirty P X w c'" by (rule Cache_Store_resident_dirty [OF dims ret])
  from ret have "n' = n \<or> n' = m
           \<or> (\<exists>ea res'. ea \<noteq> evict_addr P (tag_of P X) (set_idx_of P X)
                 \<and> next_Store ea m = Inr (res', n'))"
  proof (cases rule: Cache_Store_InrE)
    case (hit w)
    then show ?thesis by simp
  next
    case (miss res0 n1 c2)
    with nL have n1: "n1 = m" by simp
    have inv1: "level_inv P (c\<lparr>misses := misses c + 1\<rparr>)" using inv by (simp add: level_inv_misses)
    from Fill_Inr_summary [OF miss(5)] obtain v where v: "v < Ways P"
      and how: "n' = n1 \<or> (valid (sets c ! unat (set_idx_of P X) ! v) \<and> dirty (sets c ! unat (set_idx_of P X) ! v)
                     \<and> (\<exists>res'. next_Store (evict_addr P (tag (sets c ! unat (set_idx_of P X) ! v)) (set_idx_of P X)) n1
                                 = Inr (res', n')))"
      by auto
    from how show ?thesis
    proof
      assume "n' = n1"
      with n1 show ?thesis by simp
    next
      assume wb: "valid (sets c ! unat (set_idx_of P X) ! v) \<and> dirty (sets c ! unat (set_idx_of P X) ! v)
                     \<and> (\<exists>res'. next_Store (evict_addr P (tag (sets c ! unat (set_idx_of P X) ! v)) (set_idx_of P X)) n1
                                 = Inr (res', n'))"
      with miss(2) v have "tag (sets c ! unat (set_idx_of P X) ! v) \<noteq> tag_of P X"
        by (auto simp: tag_lookup_None)
      then have "set_idx_of P X \<noteq> set_idx_of P X \<or> tag (sets c ! unat (set_idx_of P X) ! v) \<noteq> tag_of P X" ..
      from other_victim_other_addr [OF cfg inv v _ this] wb
      have "evict_addr P (tag (sets c ! unat (set_idx_of P X) ! v)) (set_idx_of P X)
            \<noteq> evict_addr P (tag_of P X) (set_idx_of P X)" by simp
      with wb n1 show ?thesis by blast
    qed
  qed
  with rdx show ?thesis by blast
qed

lemma Cache_access_returns:
  assumes "divisors_ok P" and "next_Load addr n = Inr (res, m)"
    and "victim_ok P c (set_idx_of P addr)"
    and "\<forall>ea. \<exists>res' n'. next_Store ea m = Inr (res', n')"
  shows "\<exists>r c' n'. Cache_access ty P next_Load next_Store addr (c, n) = Inr (r, c', n')"
proof (cases ty)
  case kLoad
  with Cache_Load_returns [where next_Load = next_Load and next_Store = next_Store, OF assms]
  show ?thesis by (simp add: Cache_access_def)
next
  case kStore
  with Cache_Store_returns [where next_Load = next_Load and next_Store = next_Store, OF assms]
  show ?thesis by (simp add: Cache_access_def)
qed

lemma divisors_ok_fits:
  assumes "BlockSize P \<noteq> 0" "Sets P \<noteq> 0" "unat (BlockSize P) * unat (Sets P) < 2 ^ 64"
  shows "divisors_ok P"
proof -
  have "unat (BlockSize P * Sets P) = unat (BlockSize P) * unat (Sets P)"
    using assms(3) by (simp add: unat_word_ariths)
  moreover have "0 < unat (BlockSize P) * unat (Sets P)" using assms(1,2) by (simp add: unat_gt_0)
  ultimately have "BlockSize P * Sets P \<noteq> 0" by (metis unat_gt_0)
  with assms(1,2) show ?thesis by (simp add: divisors_ok_def)
qed

lemma Cache_init_level_inv: "level_inv P (Cache_init P)"
  by (simp add: level_inv_def dims_ok_def tags_rebuild_nth Cache_init_def line_rebuilds_def
        list_all_length tag_unique_set_replicate_invalid)

text \<open>
  C2, as stated: after \<open>Store(A)\<close>, the eviction of the line of \<open>A\<close> sends one
  \<open>Store\<close> to the next layer, at the address \<open>A\<close>. The address of the write-back is
  rebuilt from the tag and the set index, so it is the first address of the block of
  \<open>A\<close>: in the level of the spec's scenario (\<open>BlockSize = 4\<close>), \<open>Store(5)\<close> followed by
  \<open>Load(0)\<close> makes the next layer receive \<open>Load(5)\<close>, \<open>Load(0)\<close> and then \<open>Store(4)\<close>,
  not \<open>Store(5)\<close>.
\<close>

theorem write_back_address_counterexample:
  "simulate (Cache_Load (L1_params 1 1 4) (Probe_Load ''MainMemory'' 100) (Probe_Store ''MainMemory'' 100))
            (Cache_Store (L1_params 1 1 4) (Probe_Load ''MainMemory'' 100) (Probe_Store ''MainMemory'' 100))
            [(kStore, 5), (kLoad, 0)] (Cache_init (L1_params 1 1 4), [])
   = Inr ([\<lparr>hit_level = ''MainMemory'', total_cycles = 101\<rparr>,
           \<lparr>hit_level = ''MainMemory'', total_cycles = 101\<rparr>],
       \<lparr>sets = [[\<lparr>valid = True, dirty = False, tag = 0\<rparr>]], policy = [[0 :: nat]],
          hits = 0, misses = 2, evictions = 1\<rparr>, [(kLoad, 5), (kLoad, 0), (kStore, 4)])"
  by code_simp

text \<open>
  C2, amended, for a level whose \<open>Sets\<close> and \<open>BlockSize\<close> are not zero and whose product
  fits in 64 bits, in a state \<open>c\<close> that satisfies the invariant of a level (which the
  constructed state does, and which every access keeps), with any next layer (state \<open>n\<close>)
  whose \<open>Load\<close> of the address returns, leaving the state \<open>m\<close>, and whose \<open>Store\<close> returns
  from \<open>m\<close>, and a policy that answers a way of the set. The calls below return.

  A \<open>Store\<close> of \<open>X\<close> leaves the block of \<open>X\<close> in some way of its set, valid and dirty, and
  sends nothing to the address of the block of \<open>X\<close>: the next layer is left as it was
  (\<open>n\<close>, a hit), or as its \<open>Load\<close> left it (\<open>m\<close>), or as one \<open>Store\<close> at another address
  left it after that \<open>Load\<close>.

  While the block of \<open>A\<close> is valid and dirty in way \<open>w\<close>, an access of either type to
  any address \<open>X\<close> either leaves it so, and then the next layer received no \<open>Store\<close> at the
  address of the block of \<open>A\<close> (its state is \<open>n\<close>, or \<open>m\<close>, or \<open>m\<close> after one \<open>Store\<close> at
  another address); or it evicts the line, and then the next layer's state is \<open>m\<close> after
  exactly one \<open>Store\<close>, at the address rebuilt from the tag of \<open>A\<close>, which is \<open>A\<close> rounded
  down to a multiple of \<open>BlockSize\<close> (\<open>A\<close> itself when \<open>A\<close> is block-aligned); \<open>X\<close> is an
  address of the same set with another tag, the eviction counter went up by one and the
  line holds the tag of \<open>X\<close>. So from the \<open>Store\<close> of \<open>A\<close> until the eviction of its line
  the next layer receives one \<open>Store\<close> for the block, sent by the evicting access.
\<close>

theorem dirty_line_written_back_on_eviction:
  assumes cfg: "BlockSize P \<noteq> 0" "Sets P \<noteq> 0" "unat (BlockSize P) * unat (Sets P) < 2 ^ 64"
    and inv: "level_inv P c"
    and nL: "next_Load X n = Inr (res, m)"
    and nS: "\<forall>ea. \<exists>res' n'. next_Store ea m = Inr (res', n')"
    and vic: "victim_ok P c (set_idx_of P X)"
  shows "level_inv P (Cache_init P)
       \<and> (\<exists>r c' n'. Cache_Store P next_Load next_Store X (c, n) = Inr (r, c', n')
            \<and> level_inv P c' \<and> (\<exists>w. resident_dirty P X w c')
            \<and> (n' = n \<or> n' = m
                \<or> (\<exists>ea res'. ea \<noteq> evict_addr P (tag_of P X) (set_idx_of P X)
                      \<and> next_Store ea m = Inr (res', n'))))
       \<and> (resident_dirty P A w c \<longrightarrow>
            (\<exists>r c' n'. Cache_access ty P next_Load next_Store X (c, n) = Inr (r, c', n')
               \<and> level_inv P c'
               \<and> (resident_dirty P A w c'
                     \<and> (n' = n \<or> n' = m
                         \<or> (\<exists>ea res'. ea \<noteq> evict_addr P (tag_of P A) (set_idx_of P A)
                               \<and> next_Store ea m = Inr (res', n')))
                   \<or> \<not> resident_dirty P A w c'
                     \<and> (\<exists>res'. next_Store (evict_addr P (tag_of P A) (set_idx_of P A)) m = Inr (res', n'))
                     \<and> unat (evict_addr P (tag_of P A) (set_idx_of P A))
                         = unat A - unat A mod unat (BlockSize P)
                     \<and> evictions c' = evictions c + 1
                     \<and> set_idx_of P X = set_idx_of P A \<and> tag_of P X \<noteq> tag_of P A
                     \<and> tag (sets c' ! unat (set_idx_of P A) ! w) = tag_of P X)))"
proof (intro conjI impI)
  show "level_inv P (Cache_init P)" by (rule Cache_init_level_inv)
next
  note div = divisors_ok_fits [OF cfg]
  from Cache_access_returns [where ty = kStore and next_Load = next_Load and next_Store = next_Store,
         OF div nL vic nS]
  obtain r c' n' where ret: "Cache_access kStore P next_Load next_Store X (c, n) = Inr (r, c', n')"
    by blast
  then have ret': "Cache_Store P next_Load next_Store X (c, n) = Inr (r, c', n')"
    by (simp add: Cache_access_def)
  from Cache_access_inv [OF cfg inv ret] Store_step [OF cfg inv nL ret'] ret'
  show "\<exists>r c' n'. Cache_Store P next_Load next_Store X (c, n) = Inr (r, c', n')
            \<and> level_inv P c' \<and> (\<exists>w. resident_dirty P X w c')
            \<and> (n' = n \<or> n' = m
                \<or> (\<exists>ea res'. ea \<noteq> evict_addr P (tag_of P X) (set_idx_of P X)
                      \<and> next_Store ea m = Inr (res', n')))"
    by blast
next
  assume rd: "resident_dirty P A w c"
  note div = divisors_ok_fits [OF cfg]
  have ea: "unat (evict_addr P (tag_of P A) (set_idx_of P A)) = unat A - unat A mod unat (BlockSize P)"
    using unat_evict_addr(1) [OF cfg, of A] by (simp add: minus_mod_eq_div_mult)
  from Cache_access_returns [where ty = ty and next_Load = next_Load and next_Store = next_Store,
         OF div nL vic nS]
  obtain r c' n' where ret: "Cache_access ty P next_Load next_Store X (c, n) = Inr (r, c', n')"
    by blast
  from Cache_access_inv [OF cfg inv ret] access_step [OF cfg inv rd nL ret] ret ea
  show "\<exists>r c' n'. Cache_access ty P next_Load next_Store X (c, n) = Inr (r, c', n')
               \<and> level_inv P c'
               \<and> (resident_dirty P A w c'
                     \<and> (n' = n \<or> n' = m
                         \<or> (\<exists>ea res'. ea \<noteq> evict_addr P (tag_of P A) (set_idx_of P A)
                               \<and> next_Store ea m = Inr (res', n')))
                   \<or> \<not> resident_dirty P A w c'
                     \<and> (\<exists>res'. next_Store (evict_addr P (tag_of P A) (set_idx_of P A)) m = Inr (res', n'))
                     \<and> unat (evict_addr P (tag_of P A) (set_idx_of P A))
                         = unat A - unat A mod unat (BlockSize P)
                     \<and> evictions c' = evictions c + 1
                     \<and> set_idx_of P X = set_idx_of P A \<and> tag_of P X \<noteq> tag_of P A
                     \<and> tag (sets c' ! unat (set_idx_of P A) ! w) = tag_of P X)"
    by blast
qed

theorem dirty_line_written_back_on_eviction_witness:
  "BlockSize (L1_params 1 2 4) \<noteq> 0 \<and> Sets (L1_params 1 2 4) \<noteq> 0 \<and> unat (BlockSize (L1_params 1 2 4)) * unat (Sets (L1_params 1 2 4)) < 2 ^ 64
   \<and> level_inv (L1_params 1 2 4) (Cache_init (L1_params 1 2 4))
   \<and> evict_addr (L1_params 1 2 4) (tag_of (L1_params 1 2 4) 6) (set_idx_of (L1_params 1 2 4) 6) = 4
   \<and> level_inv (L1_params 1 2 4) ((Cache_init (L1_params 1 2 4))) \<and> (Probe_Load ''MainMemory'' 100) 6 [] = Inr (\<lparr>hit_level = ''MainMemory'', total_cycles = 100\<rparr>, [(kLoad, 6)])
   \<and> (\<forall>ea. \<exists>res' n'. (Probe_Store ''MainMemory'' 100) ea [(kLoad, 6)] = Inr (res', n'))
   \<and> victim_ok (L1_params 1 2 4) ((Cache_init (L1_params 1 2 4))) (set_idx_of (L1_params 1 2 4) 6)
   \<and> (\<exists>r c' n'. Cache_Store (L1_params 1 2 4) (Probe_Load ''MainMemory'' 100) (Probe_Store ''MainMemory'' 100) 6 ((Cache_init (L1_params 1 2 4)), []) = Inr (r, c', n')
            \<and> level_inv (L1_params 1 2 4) c' \<and> (\<exists>w. resident_dirty (L1_params 1 2 4) 6 w c')
            \<and> (n' = [] \<or> n' = [(kLoad, 6)]
                \<or> (\<exists>ea res'. ea \<noteq> evict_addr (L1_params 1 2 4) (tag_of (L1_params 1 2 4) 6) (set_idx_of (L1_params 1 2 4) 6)
                      \<and> (Probe_Store ''MainMemory'' 100) ea [(kLoad, 6)] = Inr (res', n'))))
   \<and> Cache_Store (L1_params 1 2 4) (Probe_Load ''MainMemory'' 100) (Probe_Store ''MainMemory'' 100) 6 ((Cache_init (L1_params 1 2 4)), [])
       = Inr (\<lparr>hit_level = ''MainMemory'', total_cycles = 101\<rparr>, \<lparr>sets = [[\<lparr>valid = True, dirty = True, tag = 1\<rparr>, \<lparr>valid = False, dirty = False, tag = 0\<rparr>]],
          policy = [[0 :: nat, 1]], hits = 0, misses = 1, evictions = 0\<rparr>, [(kLoad, 6)])
   \<and> resident_dirty (L1_params 1 2 4) 6 0 (\<lparr>sets = [[\<lparr>valid = True, dirty = True, tag = 1\<rparr>, \<lparr>valid = False, dirty = False, tag = 0\<rparr>]],
          policy = [[0 :: nat, 1]], hits = 0, misses = 1, evictions = 0\<rparr>)
   \<and> level_inv (L1_params 1 2 4) (\<lparr>sets = [[\<lparr>valid = True, dirty = True, tag = 1\<rparr>, \<lparr>valid = False, dirty = False, tag = 0\<rparr>]],
          policy = [[0 :: nat, 1]], hits = 0, misses = 1, evictions = 0\<rparr>) \<and> (Probe_Load ''MainMemory'' 100) 6 [(kLoad, 6)] = Inr (\<lparr>hit_level = ''MainMemory'', total_cycles = 100\<rparr>, [(kLoad, 6), (kLoad, 6)])
   \<and> (\<forall>ea. \<exists>res' n'. (Probe_Store ''MainMemory'' 100) ea [(kLoad, 6), (kLoad, 6)] = Inr (res', n'))
   \<and> victim_ok (L1_params 1 2 4) (\<lparr>sets = [[\<lparr>valid = True, dirty = True, tag = 1\<rparr>, \<lparr>valid = False, dirty = False, tag = 0\<rparr>]],
          policy = [[0 :: nat, 1]], hits = 0, misses = 1, evictions = 0\<rparr>) (set_idx_of (L1_params 1 2 4) 6)
   \<and> resident_dirty (L1_params 1 2 4) 6 0 (\<lparr>sets = [[\<lparr>valid = True, dirty = True, tag = 1\<rparr>, \<lparr>valid = False, dirty = False, tag = 0\<rparr>]],
          policy = [[0 :: nat, 1]], hits = 0, misses = 1, evictions = 0\<rparr>)
   \<and> (\<exists>r c' n'. Cache_access kStore (L1_params 1 2 4) (Probe_Load ''MainMemory'' 100) (Probe_Store ''MainMemory'' 100) 6 (\<lparr>sets = [[\<lparr>valid = True, dirty = True, tag = 1\<rparr>, \<lparr>valid = False, dirty = False, tag = 0\<rparr>]],
          policy = [[0 :: nat, 1]], hits = 0, misses = 1, evictions = 0\<rparr>, [(kLoad, 6)]) = Inr (r, c', n')
               \<and> level_inv (L1_params 1 2 4) c'
               \<and> (resident_dirty (L1_params 1 2 4) 6 0 c'
                     \<and> (n' = [(kLoad, 6)] \<or> n' = [(kLoad, 6), (kLoad, 6)]
                         \<or> (\<exists>ea res'. ea \<noteq> evict_addr (L1_params 1 2 4) (tag_of (L1_params 1 2 4) 6) (set_idx_of (L1_params 1 2 4) 6)
                               \<and> (Probe_Store ''MainMemory'' 100) ea [(kLoad, 6), (kLoad, 6)] = Inr (res', n')))
                   \<or> \<not> resident_dirty (L1_params 1 2 4) 6 0 c'
                     \<and> (\<exists>res'. (Probe_Store ''MainMemory'' 100) (evict_addr (L1_params 1 2 4) (tag_of (L1_params 1 2 4) 6) (set_idx_of (L1_params 1 2 4) 6)) [(kLoad, 6), (kLoad, 6)] = Inr (res', n'))
                     \<and> unat (evict_addr (L1_params 1 2 4) (tag_of (L1_params 1 2 4) 6) (set_idx_of (L1_params 1 2 4) 6))
                         = unat (6 :: u64) - unat (6 :: u64) mod unat (BlockSize (L1_params 1 2 4))
                     \<and> evictions c' = evictions (\<lparr>sets = [[\<lparr>valid = True, dirty = True, tag = 1\<rparr>, \<lparr>valid = False, dirty = False, tag = 0\<rparr>]],
          policy = [[0 :: nat, 1]], hits = 0, misses = 1, evictions = 0\<rparr>) + 1
                     \<and> set_idx_of (L1_params 1 2 4) 6 = set_idx_of (L1_params 1 2 4) 6 \<and> tag_of (L1_params 1 2 4) 6 \<noteq> tag_of (L1_params 1 2 4) 6
                     \<and> tag (sets c' ! unat (set_idx_of (L1_params 1 2 4) 6) ! 0) = tag_of (L1_params 1 2 4) 6))
   \<and> Cache_access kStore (L1_params 1 2 4) (Probe_Load ''MainMemory'' 100) (Probe_Store ''MainMemory'' 100) 6 (\<lparr>sets = [[\<lparr>valid = True, dirty = True, tag = 1\<rparr>, \<lparr>valid = False, dirty = False, tag = 0\<rparr>]],
          policy = [[0 :: nat, 1]], hits = 0, misses = 1, evictions = 0\<rparr>, [(kLoad, 6)])
       = Inr (\<lparr>hit_level = ''L1'', total_cycles = 1\<rparr>, \<lparr>sets = [[\<lparr>valid = True, dirty = True, tag = 1\<rparr>, \<lparr>valid = False, dirty = False, tag = 0\<rparr>]],
          policy = [[0 :: nat, 1]], hits = 1, misses = 1, evictions = 0\<rparr>, [(kLoad, 6)])
   \<and> resident_dirty (L1_params 1 2 4) 6 0 (\<lparr>sets = [[\<lparr>valid = True, dirty = True, tag = 1\<rparr>, \<lparr>valid = False, dirty = False, tag = 0\<rparr>]],
          policy = [[0 :: nat, 1]], hits = 1, misses = 1, evictions = 0\<rparr>)
   \<and> level_inv (L1_params 1 2 4) (\<lparr>sets = [[\<lparr>valid = True, dirty = True, tag = 1\<rparr>, \<lparr>valid = False, dirty = False, tag = 0\<rparr>]],
          policy = [[0 :: nat, 1]], hits = 1, misses = 1, evictions = 0\<rparr>) \<and> (Probe_Load ''MainMemory'' 100) 8 [(kLoad, 6)] = Inr (\<lparr>hit_level = ''MainMemory'', total_cycles = 100\<rparr>, [(kLoad, 6), (kLoad, 8)])
   \<and> (\<forall>ea. \<exists>res' n'. (Probe_Store ''MainMemory'' 100) ea [(kLoad, 6), (kLoad, 8)] = Inr (res', n'))
   \<and> victim_ok (L1_params 1 2 4) (\<lparr>sets = [[\<lparr>valid = True, dirty = True, tag = 1\<rparr>, \<lparr>valid = False, dirty = False, tag = 0\<rparr>]],
          policy = [[0 :: nat, 1]], hits = 1, misses = 1, evictions = 0\<rparr>) (set_idx_of (L1_params 1 2 4) 8)
   \<and> resident_dirty (L1_params 1 2 4) 6 0 (\<lparr>sets = [[\<lparr>valid = True, dirty = True, tag = 1\<rparr>, \<lparr>valid = False, dirty = False, tag = 0\<rparr>]],
          policy = [[0 :: nat, 1]], hits = 1, misses = 1, evictions = 0\<rparr>)
   \<and> (\<exists>r c' n'. Cache_access kLoad (L1_params 1 2 4) (Probe_Load ''MainMemory'' 100) (Probe_Store ''MainMemory'' 100) 8 (\<lparr>sets = [[\<lparr>valid = True, dirty = True, tag = 1\<rparr>, \<lparr>valid = False, dirty = False, tag = 0\<rparr>]],
          policy = [[0 :: nat, 1]], hits = 1, misses = 1, evictions = 0\<rparr>, [(kLoad, 6)]) = Inr (r, c', n')
               \<and> level_inv (L1_params 1 2 4) c'
               \<and> (resident_dirty (L1_params 1 2 4) 6 0 c'
                     \<and> (n' = [(kLoad, 6)] \<or> n' = [(kLoad, 6), (kLoad, 8)]
                         \<or> (\<exists>ea res'. ea \<noteq> evict_addr (L1_params 1 2 4) (tag_of (L1_params 1 2 4) 6) (set_idx_of (L1_params 1 2 4) 6)
                               \<and> (Probe_Store ''MainMemory'' 100) ea [(kLoad, 6), (kLoad, 8)] = Inr (res', n')))
                   \<or> \<not> resident_dirty (L1_params 1 2 4) 6 0 c'
                     \<and> (\<exists>res'. (Probe_Store ''MainMemory'' 100) (evict_addr (L1_params 1 2 4) (tag_of (L1_params 1 2 4) 6) (set_idx_of (L1_params 1 2 4) 6)) [(kLoad, 6), (kLoad, 8)] = Inr (res', n'))
                     \<and> unat (evict_addr (L1_params 1 2 4) (tag_of (L1_params 1 2 4) 6) (set_idx_of (L1_params 1 2 4) 6))
                         = unat (6 :: u64) - unat (6 :: u64) mod unat (BlockSize (L1_params 1 2 4))
                     \<and> evictions c' = evictions (\<lparr>sets = [[\<lparr>valid = True, dirty = True, tag = 1\<rparr>, \<lparr>valid = False, dirty = False, tag = 0\<rparr>]],
          policy = [[0 :: nat, 1]], hits = 1, misses = 1, evictions = 0\<rparr>) + 1
                     \<and> set_idx_of (L1_params 1 2 4) 8 = set_idx_of (L1_params 1 2 4) 6 \<and> tag_of (L1_params 1 2 4) 8 \<noteq> tag_of (L1_params 1 2 4) 6
                     \<and> tag (sets c' ! unat (set_idx_of (L1_params 1 2 4) 6) ! 0) = tag_of (L1_params 1 2 4) 8))
   \<and> Cache_access kLoad (L1_params 1 2 4) (Probe_Load ''MainMemory'' 100) (Probe_Store ''MainMemory'' 100) 8 (\<lparr>sets = [[\<lparr>valid = True, dirty = True, tag = 1\<rparr>, \<lparr>valid = False, dirty = False, tag = 0\<rparr>]],
          policy = [[0 :: nat, 1]], hits = 1, misses = 1, evictions = 0\<rparr>, [(kLoad, 6)])
       = Inr (\<lparr>hit_level = ''MainMemory'', total_cycles = 101\<rparr>, \<lparr>sets = [[\<lparr>valid = True, dirty = True, tag = 1\<rparr>, \<lparr>valid = True, dirty = False, tag = 2\<rparr>]],
          policy = [[1 :: nat, 0]], hits = 1, misses = 2, evictions = 0\<rparr>, [(kLoad, 6), (kLoad, 8)])
   \<and> resident_dirty (L1_params 1 2 4) 6 0 (\<lparr>sets = [[\<lparr>valid = True, dirty = True, tag = 1\<rparr>, \<lparr>valid = True, dirty = False, tag = 2\<rparr>]],
          policy = [[1 :: nat, 0]], hits = 1, misses = 2, evictions = 0\<rparr>)
   \<and> level_inv (L1_params 1 2 4) (\<lparr>sets = [[\<lparr>valid = True, dirty = True, tag = 1\<rparr>, \<lparr>valid = True, dirty = False, tag = 2\<rparr>]],
          policy = [[1 :: nat, 0]], hits = 1, misses = 2, evictions = 0\<rparr>) \<and> (Probe_Load ''MainMemory'' 100) 0 [(kLoad, 6), (kLoad, 8)] = Inr (\<lparr>hit_level = ''MainMemory'', total_cycles = 100\<rparr>, [(kLoad, 6), (kLoad, 8), (kLoad, 0)])
   \<and> (\<forall>ea. \<exists>res' n'. (Probe_Store ''MainMemory'' 100) ea [(kLoad, 6), (kLoad, 8), (kLoad, 0)] = Inr (res', n'))
   \<and> victim_ok (L1_params 1 2 4) (\<lparr>sets = [[\<lparr>valid = True, dirty = True, tag = 1\<rparr>, \<lparr>valid = True, dirty = False, tag = 2\<rparr>]],
          policy = [[1 :: nat, 0]], hits = 1, misses = 2, evictions = 0\<rparr>) (set_idx_of (L1_params 1 2 4) 0)
   \<and> resident_dirty (L1_params 1 2 4) 6 0 (\<lparr>sets = [[\<lparr>valid = True, dirty = True, tag = 1\<rparr>, \<lparr>valid = True, dirty = False, tag = 2\<rparr>]],
          policy = [[1 :: nat, 0]], hits = 1, misses = 2, evictions = 0\<rparr>)
   \<and> (\<exists>r c' n'. Cache_access kLoad (L1_params 1 2 4) (Probe_Load ''MainMemory'' 100) (Probe_Store ''MainMemory'' 100) 0 (\<lparr>sets = [[\<lparr>valid = True, dirty = True, tag = 1\<rparr>, \<lparr>valid = True, dirty = False, tag = 2\<rparr>]],
          policy = [[1 :: nat, 0]], hits = 1, misses = 2, evictions = 0\<rparr>, [(kLoad, 6), (kLoad, 8)]) = Inr (r, c', n')
               \<and> level_inv (L1_params 1 2 4) c'
               \<and> (resident_dirty (L1_params 1 2 4) 6 0 c'
                     \<and> (n' = [(kLoad, 6), (kLoad, 8)] \<or> n' = [(kLoad, 6), (kLoad, 8), (kLoad, 0)]
                         \<or> (\<exists>ea res'. ea \<noteq> evict_addr (L1_params 1 2 4) (tag_of (L1_params 1 2 4) 6) (set_idx_of (L1_params 1 2 4) 6)
                               \<and> (Probe_Store ''MainMemory'' 100) ea [(kLoad, 6), (kLoad, 8), (kLoad, 0)] = Inr (res', n')))
                   \<or> \<not> resident_dirty (L1_params 1 2 4) 6 0 c'
                     \<and> (\<exists>res'. (Probe_Store ''MainMemory'' 100) (evict_addr (L1_params 1 2 4) (tag_of (L1_params 1 2 4) 6) (set_idx_of (L1_params 1 2 4) 6)) [(kLoad, 6), (kLoad, 8), (kLoad, 0)] = Inr (res', n'))
                     \<and> unat (evict_addr (L1_params 1 2 4) (tag_of (L1_params 1 2 4) 6) (set_idx_of (L1_params 1 2 4) 6))
                         = unat (6 :: u64) - unat (6 :: u64) mod unat (BlockSize (L1_params 1 2 4))
                     \<and> evictions c' = evictions (\<lparr>sets = [[\<lparr>valid = True, dirty = True, tag = 1\<rparr>, \<lparr>valid = True, dirty = False, tag = 2\<rparr>]],
          policy = [[1 :: nat, 0]], hits = 1, misses = 2, evictions = 0\<rparr>) + 1
                     \<and> set_idx_of (L1_params 1 2 4) 0 = set_idx_of (L1_params 1 2 4) 6 \<and> tag_of (L1_params 1 2 4) 0 \<noteq> tag_of (L1_params 1 2 4) 6
                     \<and> tag (sets c' ! unat (set_idx_of (L1_params 1 2 4) 6) ! 0) = tag_of (L1_params 1 2 4) 0))
   \<and> Cache_access kLoad (L1_params 1 2 4) (Probe_Load ''MainMemory'' 100) (Probe_Store ''MainMemory'' 100) 0 (\<lparr>sets = [[\<lparr>valid = True, dirty = True, tag = 1\<rparr>, \<lparr>valid = True, dirty = False, tag = 2\<rparr>]],
          policy = [[1 :: nat, 0]], hits = 1, misses = 2, evictions = 0\<rparr>, [(kLoad, 6), (kLoad, 8)])
       = Inr (\<lparr>hit_level = ''MainMemory'', total_cycles = 101\<rparr>, \<lparr>sets = [[\<lparr>valid = True, dirty = False, tag = 0\<rparr>, \<lparr>valid = True, dirty = False, tag = 2\<rparr>]],
          policy = [[0 :: nat, 1]], hits = 1, misses = 3, evictions = 1\<rparr>, [(kLoad, 6), (kLoad, 8), (kLoad, 0), (kStore, 4)])
   \<and> \<not> resident_dirty (L1_params 1 2 4) 6 0 (\<lparr>sets = [[\<lparr>valid = True, dirty = False, tag = 0\<rparr>, \<lparr>valid = True, dirty = False, tag = 2\<rparr>]],
          policy = [[0 :: nat, 1]], hits = 1, misses = 3, evictions = 1\<rparr>)"
proof -
  have a: "BlockSize (L1_params 1 2 4) \<noteq> 0" and b: "Sets (L1_params 1 2 4) \<noteq> 0"
    and c: "unat (BlockSize (L1_params 1 2 4)) * unat (Sets (L1_params 1 2 4)) < 2 ^ 64"
    by (simp_all add: L1_params_def)
  have e4: "evict_addr (L1_params 1 2 4) (tag_of (L1_params 1 2 4) 6) (set_idx_of (L1_params 1 2 4) 6) = 4"
    by code_simp
  have i1: "level_inv (L1_params 1 2 4) ((Cache_init (L1_params 1 2 4)))"
    and l1: "(Probe_Load ''MainMemory'' 100) 6 [] = Inr (\<lparr>hit_level = ''MainMemory'', total_cycles = 100\<rparr>, [(kLoad, 6)])"
    and s1: "\<forall>ea. \<exists>res' n'. (Probe_Store ''MainMemory'' 100) ea [(kLoad, 6)] = Inr (res', n')"
    and v1: "victim_ok (L1_params 1 2 4) ((Cache_init (L1_params 1 2 4))) (set_idx_of (L1_params 1 2 4) 6)"
    by (code_simp, simp add: Probe_Load_def, simp add: Probe_Store_def, code_simp)
  have r1: "Cache_Store (L1_params 1 2 4) (Probe_Load ''MainMemory'' 100) (Probe_Store ''MainMemory'' 100) 6 ((Cache_init (L1_params 1 2 4)), [])
       = Inr (\<lparr>hit_level = ''MainMemory'', total_cycles = 101\<rparr>, \<lparr>sets = [[\<lparr>valid = True, dirty = True, tag = 1\<rparr>, \<lparr>valid = False, dirty = False, tag = 0\<rparr>]],
          policy = [[0 :: nat, 1]], hits = 0, misses = 1, evictions = 0\<rparr>, [(kLoad, 6)])"
    by code_simp
  have f1: "resident_dirty (L1_params 1 2 4) 6 0 (\<lparr>sets = [[\<lparr>valid = True, dirty = True, tag = 1\<rparr>, \<lparr>valid = False, dirty = False, tag = 0\<rparr>]],
          policy = [[0 :: nat, 1]], hits = 0, misses = 1, evictions = 0\<rparr>)"
    by code_simp
  from dirty_line_written_back_on_eviction [where next_Load = "(Probe_Load ''MainMemory'' 100)" and next_Store = "(Probe_Store ''MainMemory'' 100)"
         and A = 6 and w = 0 and ty = kStore,
         OF a b c i1 l1 s1 v1, THEN conjunct2, THEN conjunct1]
  have k1: "(\<exists>r c' n'. Cache_Store (L1_params 1 2 4) (Probe_Load ''MainMemory'' 100) (Probe_Store ''MainMemory'' 100) 6 ((Cache_init (L1_params 1 2 4)), []) = Inr (r, c', n')
            \<and> level_inv (L1_params 1 2 4) c' \<and> (\<exists>w. resident_dirty (L1_params 1 2 4) 6 w c')
            \<and> (n' = [] \<or> n' = [(kLoad, 6)]
                \<or> (\<exists>ea res'. ea \<noteq> evict_addr (L1_params 1 2 4) (tag_of (L1_params 1 2 4) 6) (set_idx_of (L1_params 1 2 4) 6)
                      \<and> (Probe_Store ''MainMemory'' 100) ea [(kLoad, 6)] = Inr (res', n'))))" .
  have i2: "level_inv (L1_params 1 2 4) (\<lparr>sets = [[\<lparr>valid = True, dirty = True, tag = 1\<rparr>, \<lparr>valid = False, dirty = False, tag = 0\<rparr>]],
          policy = [[0 :: nat, 1]], hits = 0, misses = 1, evictions = 0\<rparr>)"
    and l2: "(Probe_Load ''MainMemory'' 100) 6 [(kLoad, 6)] = Inr (\<lparr>hit_level = ''MainMemory'', total_cycles = 100\<rparr>, [(kLoad, 6), (kLoad, 6)])"
    and s2: "\<forall>ea. \<exists>res' n'. (Probe_Store ''MainMemory'' 100) ea [(kLoad, 6), (kLoad, 6)] = Inr (res', n')"
    and v2: "victim_ok (L1_params 1 2 4) (\<lparr>sets = [[\<lparr>valid = True, dirty = True, tag = 1\<rparr>, \<lparr>valid = False, dirty = False, tag = 0\<rparr>]],
          policy = [[0 :: nat, 1]], hits = 0, misses = 1, evictions = 0\<rparr>) (set_idx_of (L1_params 1 2 4) 6)"
    by (code_simp, simp add: Probe_Load_def, simp add: Probe_Store_def, code_simp)
  have rd2: "resident_dirty (L1_params 1 2 4) 6 0 (\<lparr>sets = [[\<lparr>valid = True, dirty = True, tag = 1\<rparr>, \<lparr>valid = False, dirty = False, tag = 0\<rparr>]],
          policy = [[0 :: nat, 1]], hits = 0, misses = 1, evictions = 0\<rparr>)"
    by code_simp
  have r2: "Cache_access kStore (L1_params 1 2 4) (Probe_Load ''MainMemory'' 100) (Probe_Store ''MainMemory'' 100) 6 (\<lparr>sets = [[\<lparr>valid = True, dirty = True, tag = 1\<rparr>, \<lparr>valid = False, dirty = False, tag = 0\<rparr>]],
          policy = [[0 :: nat, 1]], hits = 0, misses = 1, evictions = 0\<rparr>, [(kLoad, 6)])
       = Inr (\<lparr>hit_level = ''L1'', total_cycles = 1\<rparr>, \<lparr>sets = [[\<lparr>valid = True, dirty = True, tag = 1\<rparr>, \<lparr>valid = False, dirty = False, tag = 0\<rparr>]],
          policy = [[0 :: nat, 1]], hits = 1, misses = 1, evictions = 0\<rparr>, [(kLoad, 6)])"
    by code_simp
  have f2: "resident_dirty (L1_params 1 2 4) 6 0 (\<lparr>sets = [[\<lparr>valid = True, dirty = True, tag = 1\<rparr>, \<lparr>valid = False, dirty = False, tag = 0\<rparr>]],
          policy = [[0 :: nat, 1]], hits = 1, misses = 1, evictions = 0\<rparr>)"
    by code_simp
  from dirty_line_written_back_on_eviction [where next_Load = "(Probe_Load ''MainMemory'' 100)" and next_Store = "(Probe_Store ''MainMemory'' 100)"
         and A = 6 and w = 0 and ty = kStore,
         OF a b c i2 l2 s2 v2, THEN conjunct2, THEN conjunct2, THEN mp, OF rd2]
  have k2: "(\<exists>r c' n'. Cache_access kStore (L1_params 1 2 4) (Probe_Load ''MainMemory'' 100) (Probe_Store ''MainMemory'' 100) 6 (\<lparr>sets = [[\<lparr>valid = True, dirty = True, tag = 1\<rparr>, \<lparr>valid = False, dirty = False, tag = 0\<rparr>]],
          policy = [[0 :: nat, 1]], hits = 0, misses = 1, evictions = 0\<rparr>, [(kLoad, 6)]) = Inr (r, c', n')
               \<and> level_inv (L1_params 1 2 4) c'
               \<and> (resident_dirty (L1_params 1 2 4) 6 0 c'
                     \<and> (n' = [(kLoad, 6)] \<or> n' = [(kLoad, 6), (kLoad, 6)]
                         \<or> (\<exists>ea res'. ea \<noteq> evict_addr (L1_params 1 2 4) (tag_of (L1_params 1 2 4) 6) (set_idx_of (L1_params 1 2 4) 6)
                               \<and> (Probe_Store ''MainMemory'' 100) ea [(kLoad, 6), (kLoad, 6)] = Inr (res', n')))
                   \<or> \<not> resident_dirty (L1_params 1 2 4) 6 0 c'
                     \<and> (\<exists>res'. (Probe_Store ''MainMemory'' 100) (evict_addr (L1_params 1 2 4) (tag_of (L1_params 1 2 4) 6) (set_idx_of (L1_params 1 2 4) 6)) [(kLoad, 6), (kLoad, 6)] = Inr (res', n'))
                     \<and> unat (evict_addr (L1_params 1 2 4) (tag_of (L1_params 1 2 4) 6) (set_idx_of (L1_params 1 2 4) 6))
                         = unat (6 :: u64) - unat (6 :: u64) mod unat (BlockSize (L1_params 1 2 4))
                     \<and> evictions c' = evictions (\<lparr>sets = [[\<lparr>valid = True, dirty = True, tag = 1\<rparr>, \<lparr>valid = False, dirty = False, tag = 0\<rparr>]],
          policy = [[0 :: nat, 1]], hits = 0, misses = 1, evictions = 0\<rparr>) + 1
                     \<and> set_idx_of (L1_params 1 2 4) 6 = set_idx_of (L1_params 1 2 4) 6 \<and> tag_of (L1_params 1 2 4) 6 \<noteq> tag_of (L1_params 1 2 4) 6
                     \<and> tag (sets c' ! unat (set_idx_of (L1_params 1 2 4) 6) ! 0) = tag_of (L1_params 1 2 4) 6))" .
  have i3: "level_inv (L1_params 1 2 4) (\<lparr>sets = [[\<lparr>valid = True, dirty = True, tag = 1\<rparr>, \<lparr>valid = False, dirty = False, tag = 0\<rparr>]],
          policy = [[0 :: nat, 1]], hits = 1, misses = 1, evictions = 0\<rparr>)"
    and l3: "(Probe_Load ''MainMemory'' 100) 8 [(kLoad, 6)] = Inr (\<lparr>hit_level = ''MainMemory'', total_cycles = 100\<rparr>, [(kLoad, 6), (kLoad, 8)])"
    and s3: "\<forall>ea. \<exists>res' n'. (Probe_Store ''MainMemory'' 100) ea [(kLoad, 6), (kLoad, 8)] = Inr (res', n')"
    and v3: "victim_ok (L1_params 1 2 4) (\<lparr>sets = [[\<lparr>valid = True, dirty = True, tag = 1\<rparr>, \<lparr>valid = False, dirty = False, tag = 0\<rparr>]],
          policy = [[0 :: nat, 1]], hits = 1, misses = 1, evictions = 0\<rparr>) (set_idx_of (L1_params 1 2 4) 8)"
    by (code_simp, simp add: Probe_Load_def, simp add: Probe_Store_def, code_simp)
  have rd3: "resident_dirty (L1_params 1 2 4) 6 0 (\<lparr>sets = [[\<lparr>valid = True, dirty = True, tag = 1\<rparr>, \<lparr>valid = False, dirty = False, tag = 0\<rparr>]],
          policy = [[0 :: nat, 1]], hits = 1, misses = 1, evictions = 0\<rparr>)"
    by code_simp
  have r3: "Cache_access kLoad (L1_params 1 2 4) (Probe_Load ''MainMemory'' 100) (Probe_Store ''MainMemory'' 100) 8 (\<lparr>sets = [[\<lparr>valid = True, dirty = True, tag = 1\<rparr>, \<lparr>valid = False, dirty = False, tag = 0\<rparr>]],
          policy = [[0 :: nat, 1]], hits = 1, misses = 1, evictions = 0\<rparr>, [(kLoad, 6)])
       = Inr (\<lparr>hit_level = ''MainMemory'', total_cycles = 101\<rparr>, \<lparr>sets = [[\<lparr>valid = True, dirty = True, tag = 1\<rparr>, \<lparr>valid = True, dirty = False, tag = 2\<rparr>]],
          policy = [[1 :: nat, 0]], hits = 1, misses = 2, evictions = 0\<rparr>, [(kLoad, 6), (kLoad, 8)])"
    by code_simp
  have f3: "resident_dirty (L1_params 1 2 4) 6 0 (\<lparr>sets = [[\<lparr>valid = True, dirty = True, tag = 1\<rparr>, \<lparr>valid = True, dirty = False, tag = 2\<rparr>]],
          policy = [[1 :: nat, 0]], hits = 1, misses = 2, evictions = 0\<rparr>)"
    by code_simp
  from dirty_line_written_back_on_eviction [where next_Load = "(Probe_Load ''MainMemory'' 100)" and next_Store = "(Probe_Store ''MainMemory'' 100)"
         and A = 6 and w = 0 and ty = kLoad,
         OF a b c i3 l3 s3 v3, THEN conjunct2, THEN conjunct2, THEN mp, OF rd3]
  have k3: "(\<exists>r c' n'. Cache_access kLoad (L1_params 1 2 4) (Probe_Load ''MainMemory'' 100) (Probe_Store ''MainMemory'' 100) 8 (\<lparr>sets = [[\<lparr>valid = True, dirty = True, tag = 1\<rparr>, \<lparr>valid = False, dirty = False, tag = 0\<rparr>]],
          policy = [[0 :: nat, 1]], hits = 1, misses = 1, evictions = 0\<rparr>, [(kLoad, 6)]) = Inr (r, c', n')
               \<and> level_inv (L1_params 1 2 4) c'
               \<and> (resident_dirty (L1_params 1 2 4) 6 0 c'
                     \<and> (n' = [(kLoad, 6)] \<or> n' = [(kLoad, 6), (kLoad, 8)]
                         \<or> (\<exists>ea res'. ea \<noteq> evict_addr (L1_params 1 2 4) (tag_of (L1_params 1 2 4) 6) (set_idx_of (L1_params 1 2 4) 6)
                               \<and> (Probe_Store ''MainMemory'' 100) ea [(kLoad, 6), (kLoad, 8)] = Inr (res', n')))
                   \<or> \<not> resident_dirty (L1_params 1 2 4) 6 0 c'
                     \<and> (\<exists>res'. (Probe_Store ''MainMemory'' 100) (evict_addr (L1_params 1 2 4) (tag_of (L1_params 1 2 4) 6) (set_idx_of (L1_params 1 2 4) 6)) [(kLoad, 6), (kLoad, 8)] = Inr (res', n'))
                     \<and> unat (evict_addr (L1_params 1 2 4) (tag_of (L1_params 1 2 4) 6) (set_idx_of (L1_params 1 2 4) 6))
                         = unat (6 :: u64) - unat (6 :: u64) mod unat (BlockSize (L1_params 1 2 4))
                     \<and> evictions c' = evictions (\<lparr>sets = [[\<lparr>valid = True, dirty = True, tag = 1\<rparr>, \<lparr>valid = False, dirty = False, tag = 0\<rparr>]],
          policy = [[0 :: nat, 1]], hits = 1, misses = 1, evictions = 0\<rparr>) + 1
                     \<and> set_idx_of (L1_params 1 2 4) 8 = set_idx_of (L1_params 1 2 4) 6 \<and> tag_of (L1_params 1 2 4) 8 \<noteq> tag_of (L1_params 1 2 4) 6
                     \<and> tag (sets c' ! unat (set_idx_of (L1_params 1 2 4) 6) ! 0) = tag_of (L1_params 1 2 4) 8))" .
  have i4: "level_inv (L1_params 1 2 4) (\<lparr>sets = [[\<lparr>valid = True, dirty = True, tag = 1\<rparr>, \<lparr>valid = True, dirty = False, tag = 2\<rparr>]],
          policy = [[1 :: nat, 0]], hits = 1, misses = 2, evictions = 0\<rparr>)"
    and l4: "(Probe_Load ''MainMemory'' 100) 0 [(kLoad, 6), (kLoad, 8)] = Inr (\<lparr>hit_level = ''MainMemory'', total_cycles = 100\<rparr>, [(kLoad, 6), (kLoad, 8), (kLoad, 0)])"
    and s4: "\<forall>ea. \<exists>res' n'. (Probe_Store ''MainMemory'' 100) ea [(kLoad, 6), (kLoad, 8), (kLoad, 0)] = Inr (res', n')"
    and v4: "victim_ok (L1_params 1 2 4) (\<lparr>sets = [[\<lparr>valid = True, dirty = True, tag = 1\<rparr>, \<lparr>valid = True, dirty = False, tag = 2\<rparr>]],
          policy = [[1 :: nat, 0]], hits = 1, misses = 2, evictions = 0\<rparr>) (set_idx_of (L1_params 1 2 4) 0)"
    by (code_simp, simp add: Probe_Load_def, simp add: Probe_Store_def, code_simp)
  have rd4: "resident_dirty (L1_params 1 2 4) 6 0 (\<lparr>sets = [[\<lparr>valid = True, dirty = True, tag = 1\<rparr>, \<lparr>valid = True, dirty = False, tag = 2\<rparr>]],
          policy = [[1 :: nat, 0]], hits = 1, misses = 2, evictions = 0\<rparr>)"
    by code_simp
  have r4: "Cache_access kLoad (L1_params 1 2 4) (Probe_Load ''MainMemory'' 100) (Probe_Store ''MainMemory'' 100) 0 (\<lparr>sets = [[\<lparr>valid = True, dirty = True, tag = 1\<rparr>, \<lparr>valid = True, dirty = False, tag = 2\<rparr>]],
          policy = [[1 :: nat, 0]], hits = 1, misses = 2, evictions = 0\<rparr>, [(kLoad, 6), (kLoad, 8)])
       = Inr (\<lparr>hit_level = ''MainMemory'', total_cycles = 101\<rparr>, \<lparr>sets = [[\<lparr>valid = True, dirty = False, tag = 0\<rparr>, \<lparr>valid = True, dirty = False, tag = 2\<rparr>]],
          policy = [[0 :: nat, 1]], hits = 1, misses = 3, evictions = 1\<rparr>, [(kLoad, 6), (kLoad, 8), (kLoad, 0), (kStore, 4)])"
    by code_simp
  have f4: "\<not> resident_dirty (L1_params 1 2 4) 6 0 (\<lparr>sets = [[\<lparr>valid = True, dirty = False, tag = 0\<rparr>, \<lparr>valid = True, dirty = False, tag = 2\<rparr>]],
          policy = [[0 :: nat, 1]], hits = 1, misses = 3, evictions = 1\<rparr>)"
    by code_simp
  from dirty_line_written_back_on_eviction [where next_Load = "(Probe_Load ''MainMemory'' 100)" and next_Store = "(Probe_Store ''MainMemory'' 100)"
         and A = 6 and w = 0 and ty = kLoad,
         OF a b c i4 l4 s4 v4, THEN conjunct2, THEN conjunct2, THEN mp, OF rd4]
  have k4: "(\<exists>r c' n'. Cache_access kLoad (L1_params 1 2 4) (Probe_Load ''MainMemory'' 100) (Probe_Store ''MainMemory'' 100) 0 (\<lparr>sets = [[\<lparr>valid = True, dirty = True, tag = 1\<rparr>, \<lparr>valid = True, dirty = False, tag = 2\<rparr>]],
          policy = [[1 :: nat, 0]], hits = 1, misses = 2, evictions = 0\<rparr>, [(kLoad, 6), (kLoad, 8)]) = Inr (r, c', n')
               \<and> level_inv (L1_params 1 2 4) c'
               \<and> (resident_dirty (L1_params 1 2 4) 6 0 c'
                     \<and> (n' = [(kLoad, 6), (kLoad, 8)] \<or> n' = [(kLoad, 6), (kLoad, 8), (kLoad, 0)]
                         \<or> (\<exists>ea res'. ea \<noteq> evict_addr (L1_params 1 2 4) (tag_of (L1_params 1 2 4) 6) (set_idx_of (L1_params 1 2 4) 6)
                               \<and> (Probe_Store ''MainMemory'' 100) ea [(kLoad, 6), (kLoad, 8), (kLoad, 0)] = Inr (res', n')))
                   \<or> \<not> resident_dirty (L1_params 1 2 4) 6 0 c'
                     \<and> (\<exists>res'. (Probe_Store ''MainMemory'' 100) (evict_addr (L1_params 1 2 4) (tag_of (L1_params 1 2 4) 6) (set_idx_of (L1_params 1 2 4) 6)) [(kLoad, 6), (kLoad, 8), (kLoad, 0)] = Inr (res', n'))
                     \<and> unat (evict_addr (L1_params 1 2 4) (tag_of (L1_params 1 2 4) 6) (set_idx_of (L1_params 1 2 4) 6))
                         = unat (6 :: u64) - unat (6 :: u64) mod unat (BlockSize (L1_params 1 2 4))
                     \<and> evictions c' = evictions (\<lparr>sets = [[\<lparr>valid = True, dirty = True, tag = 1\<rparr>, \<lparr>valid = True, dirty = False, tag = 2\<rparr>]],
          policy = [[1 :: nat, 0]], hits = 1, misses = 2, evictions = 0\<rparr>) + 1
                     \<and> set_idx_of (L1_params 1 2 4) 0 = set_idx_of (L1_params 1 2 4) 6 \<and> tag_of (L1_params 1 2 4) 0 \<noteq> tag_of (L1_params 1 2 4) 6
                     \<and> tag (sets c' ! unat (set_idx_of (L1_params 1 2 4) 6) ! 0) = tag_of (L1_params 1 2 4) 0))" .
  from dirty_line_written_back_on_eviction [where next_Load = "(Probe_Load ''MainMemory'' 100)" and next_Store = "(Probe_Store ''MainMemory'' 100)"
         and A = 6 and w = 0 and ty = kLoad,
         OF a b c i1 l1 s1 v1, THEN conjunct1]
  have k0: "level_inv (L1_params 1 2 4) (Cache_init (L1_params 1 2 4))" .
  show ?thesis using a b c k0 e4 i1 l1 s1 v1 k1 r1 f1 i2 l2 s2 v2 rd2 k2 r2 f2 i3 l3 s3 v3 rd3 k3 r3 f3 i4 l4 s4 v4 rd4 k4 r4 f4
    by (intro conjI) assumption+
qed

end
